theory Spec2Isabelle
  imports Complex_Main
begin

section \<open>GeoEstate map client (static/js/main.js)\<close>

text \<open>
  The controller is a set of handlers run one at a time by the browser's event loop.
  Each handler is a function from the page state to the page state. A handler that
  starts a \<open>fetch\<close> is split where the source splits it: the synchronous part, which ends
  by logging the request, and the \<open>then\<close>/\<open>catch\<close> continuation, which runs later as an
  event of its own with the outcome of the request.
\<close>

subsection \<open>Values\<close>

text \<open>
  A JSON number is read as the real it denotes. The results of \<open>parseInt\<close> and
  \<open>parseFloat\<close> are JS numbers, which also have \<open>NaN\<close> and the two infinities.
\<close>

datatype jsnum = NaN | PosInf | NegInf | Num real

text \<open>The global \<open>isNaN\<close> on a number.\<close>

fun isNaN :: "jsnum \<Rightarrow> bool" where
  "isNaN NaN = True"
| "isNaN _ = False"

text \<open>\<open>x <= 0\<close> on a number: every comparison with \<open>NaN\<close> is false.\<close>

fun le_zero :: "jsnum \<Rightarrow> bool" where
  "le_zero NaN = False"
| "le_zero PosInf = False"
| "le_zero NegInf = True"
| "le_zero (Num r) = (r \<le> 0)"

text \<open>
  The builtins of the browser that the handlers call and whose result depends on the
  locale or on the number formatting of the engine. They are parameters of the model:
  \<open>toLocaleString\<close> is \<open>Number.prototype.toLocaleString\<close>, \<open>toString\<close> is the
  conversion of a number inside a template literal, \<open>parseInt\<close> and \<open>parseFloat\<close> are
  the globals of these names applied to the value of a form field.
\<close>

record host =
  toLocaleString :: "real \<Rightarrow> string"
  toString :: "real \<Rightarrow> string"
  parseInt :: "string \<Rightarrow> jsnum"
  parseFloat :: "string \<Rightarrow> jsnum"

type_synonym latlng = "real \<times> real"

text \<open>A listing as the backend sends it. \<open>image_url\<close> and \<open>type_name\<close> are the fields
  \<open>image\<close> and \<open>type\<close> of the source.\<close>

record property =
  lat :: real
  lng :: real
  price :: real
  bedrooms :: real
  bathrooms :: real
  area :: real
  address :: string
  image_url :: string
  type_name :: string

subsection \<open>The map widget\<close>

text \<open>
  The mapping widget is a library outside the repository. The model keeps what the
  handlers use of it: the layers now on the map in the order they were added, the view,
  and the one popup the map shows at a time. Every object made by \<open>L.marker\<close>,
  \<open>L.polyline\<close> or \<open>L.tileLayer\<close> gets a fresh identity \<open>layer_id\<close>, taken from the
  counter \<open>next_id\<close>; two layers are the same object when their identities agree.

  The HTML templates of the property popup and of the sidebar card are not expanded:
  \<open>PropertyPopup p\<close> stands for the template of \<open>addPropertyToMap\<close> filled from \<open>p\<close>.
\<close>

record icon =
  className :: string
  html :: string
  iconSize :: "nat \<times> nat"
  iconAnchor :: "(nat \<times> nat) option"

datatype content = Html string | PropertyPopup property

datatype layer =
    TileLayer (layer_id: nat) string
  | Marker (layer_id: nat) latlng "icon option" "content option"
  | Polyline (layer_id: nat) "latlng list"

fun is_marker :: "layer \<Rightarrow> bool" where
  "is_marker (Marker _ _ _ _) = True"
| "is_marker _ = False"

fun is_route :: "layer \<Rightarrow> bool" where
  "is_route (Polyline _ _) = True"
| "is_route _ = False"

fun marker_icon :: "layer \<Rightarrow> icon option" where
  "marker_icon (Marker _ _ ic _) = ic"
| "marker_icon _ = None"

fun getLatLng :: "layer \<Rightarrow> latlng option" where
  "getLatLng (Marker _ pos _ _) = Some pos"
| "getLatLng _ = None"

fun line_points :: "layer \<Rightarrow> latlng list" where
  "line_points (Polyline _ ps) = ps"
| "line_points _ = []"

text \<open>The popup open on the map: where it is anchored, what it shows, and the layer it
  is bound to, if any.\<close>

record open_popup =
  anchor :: latlng
  shown :: content
  source :: "nat option"

datatype view = SetView latlng nat | FitBounds "latlng list" "nat \<times> nat"

subsection \<open>Requests and the log of calls\<close>

datatype jsval = VNull | VBool bool | VNum jsnum | VStr string

record search_criteria =
  sc_location :: string
  sc_property_types :: "string list"
  sc_deal_types :: "string list"
  sc_min_price :: string
  sc_max_price :: string
  sc_bedrooms :: string
  sc_bathrooms :: string
  sc_proximities :: "string list"

datatype request =
    GetProperties
  | PostSearch search_criteria
  | GetGeocode string
  | GetRoute real real real real
  | PostEstimate "(string \<times> jsval) list"

text \<open>What a handler does outside the page state, in the order it does it.\<close>

datatype host_call =
    Fetch request
  | Alert string
  | ConsoleError string
  | RemoveLayer nat

text \<open>The outcome of \<open>fetch(...).then(response => response.json())\<close>: the parsed body,
  or a rejection (no network, a body that is not JSON).\<close>

datatype 'a outcome = Resolved 'a | Rejected string

subsection \<open>Page state\<close>

record card =
  card_heading :: string
  card_property :: property

record state =
  layers :: "layer list"
  map_view :: view
  popup :: "open_popup option"
  next_id :: nat
  propertyMarkers :: "layer list"
  currentRouteLayer :: "layer option"
  userLocationMarker :: "layer option"
  propertyList :: "card list"
  resultCount :: "nat option"
  estimated_price_value :: string
  estimation_result_shown :: bool
  calls :: "host_call list"

definition display :: "state \<Rightarrow> layer list \<times> view \<times> open_popup option" where
  "display s = (layers s, map_view s, popup s)"

definition log_call :: "host_call \<Rightarrow> state \<Rightarrow> state" where
  "log_call c s = s\<lparr>calls := calls s @ [c]\<rparr>"

definition on_map :: "layer \<Rightarrow> state \<Rightarrow> bool" where
  "on_map l s = (layer_id l \<in> layer_id ` set (layers s))"

text \<open>\<open>map.removeLayer(l)\<close>: takes the layer off the map, and closes the popup bound
  to it; nothing changes when the layer is not on the map. The call is logged.\<close>

definition removeLayer :: "layer \<Rightarrow> state \<Rightarrow> state" where
  "removeLayer l s =
     log_call (RemoveLayer (layer_id l))
       (if on_map l s
        then s\<lparr>layers := filter (\<lambda>x. layer_id x \<noteq> layer_id l) (layers s),
               popup := (case popup s of
                           None \<Rightarrow> None
                         | Some p \<Rightarrow> if source p = Some (layer_id l) then None else Some p)\<rparr>
        else s)"

text \<open>\<open>l.addTo(map)\<close>: a layer already on the map is not added twice.\<close>

definition addTo :: "layer \<Rightarrow> state \<Rightarrow> state" where
  "addTo l s = (if on_map l s then s else s\<lparr>layers := layers s @ [l]\<rparr>)"

definition setView :: "latlng \<Rightarrow> nat \<Rightarrow> state \<Rightarrow> state" where
  "setView c z s = s\<lparr>map_view := SetView c z\<rparr>"

text \<open>Opening a popup on the map closes the one that was open.\<close>

definition openOn :: "open_popup \<Rightarrow> state \<Rightarrow> state" where
  "openOn p s = s\<lparr>popup := Some p\<rparr>"

text \<open>\<open>marker.openPopup()\<close>: shows the popup bound to the marker, when it has one and
  is on the map.\<close>

fun openPopup :: "layer \<Rightarrow> state \<Rightarrow> state" where
  "openPopup (Marker i pos ic (Some c)) s =
     (if on_map (Marker i pos ic (Some c)) s
      then openOn \<lparr>anchor = pos, shown = c, source = Some i\<rparr> s else s)"
| "openPopup _ s = s"

definition fresh :: "state \<Rightarrow> nat \<times> state" where
  "fresh s = (next_id s, s\<lparr>next_id := Suc (next_id s)\<rparr>)"

subsection \<open>Listing renderer\<close>

text \<open>\<open>clearPropertyMarkers\<close>: the \<open>forEach\<close> over the tracked markers, then the reset of
  the collection.\<close>

fun remove_each :: "layer list \<Rightarrow> state \<Rightarrow> state" where
  "remove_each [] s = s"
| "remove_each (m # ms) s = remove_each ms (removeLayer m s)"

definition clearPropertyMarkers :: "state \<Rightarrow> state" where
  "clearPropertyMarkers s = (remove_each (propertyMarkers s) s)\<lparr>propertyMarkers := []\<rparr>"

definition markerSize :: "property \<Rightarrow> nat" where
  "markerSize p = (if price p > 200000 then 50 else 40)"

definition priceMarker :: "host \<Rightarrow> property \<Rightarrow> icon" where
  "priceMarker h p =
     \<lparr>className = ''price-marker'',
      html = ''N$'' @ toLocaleString h (price p),
      iconSize = (markerSize p, markerSize p),
      iconAnchor = None\<rparr>"

text \<open>\<open>addPropertyToMap\<close>: the marker is made with its icon and gets the popup bound
  (\<open>property_marker\<close>), is added to the map and pushed on \<open>propertyMarkers\<close>. The
  \<open>popupopen\<close> listener only wires the route button; a click on it is the event
  \<open>RouteButton\<close> below.\<close>

definition property_marker :: "host \<Rightarrow> nat \<Rightarrow> property \<Rightarrow> layer" where
  "property_marker h i p =
     Marker i (lat p, lng p) (Some (priceMarker h p)) (Some (PropertyPopup p))"

definition addPropertyToMap :: "host \<Rightarrow> property \<Rightarrow> state \<Rightarrow> state" where
  "addPropertyToMap h p s =
     (let (i, s1) = fresh s;
          marker = property_marker h i p;
          s2 = addTo marker s1
      in s2\<lparr>propertyMarkers := propertyMarkers s2 @ [marker]\<rparr>)"

definition addPropertyToList :: "host \<Rightarrow> property \<Rightarrow> state \<Rightarrow> state" where
  "addPropertyToList h p s =
     s\<lparr>propertyList := propertyList s @
          [\<lparr>card_heading = ''N$'' @ toLocaleString h (price p), card_property = p\<rparr>]\<rparr>"

fun render_each :: "host \<Rightarrow> property list \<Rightarrow> state \<Rightarrow> state" where
  "render_each h [] s = s"
| "render_each h (p # ps) s = render_each h ps (addPropertyToList h p (addPropertyToMap h p s))"

definition displayProperties :: "host \<Rightarrow> property list \<Rightarrow> state \<Rightarrow> state" where
  "displayProperties h properties s =
     (let s1 = clearPropertyMarkers s;
          s2 = s1\<lparr>propertyList := []\<rparr>;
          s3 = render_each h properties s2
      in s3\<lparr>resultCount := Some (length properties)\<rparr>)"


subsection \<open>Loading and searching\<close>

text \<open>\<open>loadProperties\<close>: the request, then its continuation.\<close>

definition loadProperties :: "state \<Rightarrow> state" where
  "loadProperties s = log_call (Fetch GetProperties) s"

fun loadProperties_then :: "host \<Rightarrow> property list outcome \<Rightarrow> state \<Rightarrow> state" where
  "loadProperties_then h (Resolved properties) s = displayProperties h properties s"
| "loadProperties_then h (Rejected e) s = log_call (ConsoleError (''Error loading properties: '' @ e)) s"

text \<open>The controls of the search form as \<open>searchProperties\<close> reads them.\<close>

record search_form =
  f_location :: string
  f_residential :: bool
  f_commercial :: bool
  f_industrial :: bool
  f_for_sale :: bool
  f_for_rent :: bool
  f_min_price :: string
  f_max_price :: string
  f_bedrooms :: string
  f_bathrooms :: string
  f_schools :: bool
  f_hospitals :: bool
  f_transport :: bool
  f_shopping :: bool

definition checked :: "bool \<Rightarrow> string \<Rightarrow> string list" where
  "checked b name = (if b then [name] else [])"

definition searchCriteria :: "search_form \<Rightarrow> search_criteria" where
  "searchCriteria f =
     \<lparr>sc_location = f_location f,
      sc_property_types = checked (f_residential f) ''residential'' @
                          checked (f_commercial f) ''commercial'' @
                          checked (f_industrial f) ''industrial'',
      sc_deal_types = checked (f_for_sale f) ''sale'' @ checked (f_for_rent f) ''rent'',
      sc_min_price = f_min_price f,
      sc_max_price = f_max_price f,
      sc_bedrooms = f_bedrooms f,
      sc_bathrooms = f_bathrooms f,
      sc_proximities = checked (f_schools f) ''schools'' @ checked (f_hospitals f) ''hospitals'' @
                       checked (f_transport f) ''transport'' @ checked (f_shopping f) ''shopping''\<rparr>"

definition searchProperties :: "search_form \<Rightarrow> state \<Rightarrow> state" where
  "searchProperties f s = log_call (Fetch (PostSearch (searchCriteria f))) s"

subsection \<open>Location search\<close>

text \<open>
  \<open>searchLocation(locationQuery)\<close>: the argument is \<open>None\<close> when the caller passes none;
  \<open>field\<close> is the value of the \<open>locationSearch\<close> input. An absent and an empty string are
  both falsy.
\<close>

definition searchLocation :: "string option \<Rightarrow> string \<Rightarrow> state \<Rightarrow> state" where
  "searchLocation locationQuery field s =
     (let q = (case locationQuery of None \<Rightarrow> field | Some a \<Rightarrow> if a = [] then field else a)
      in if q = [] then s else log_call (Fetch (GetGeocode q)) s)"

text \<open>The geocode response. \<open>g_error\<close> is \<open>None\<close> when the body has no \<open>error\<close> field.\<close>

record geocode_data =
  g_success :: bool
  g_lat :: real
  g_lng :: real
  formatted_address :: string
  g_error :: "string option"

text \<open>\<open>data.error || 'Location not found'\<close>.\<close>

definition error_or_default :: "string option \<Rightarrow> string" where
  "error_or_default e =
     (case e of None \<Rightarrow> ''Location not found''
      | Some m \<Rightarrow> if m = [] then ''Location not found'' else m)"

text \<open>A change to an object reaches every reference to it.\<close>

definition update_object :: "nat \<Rightarrow> (layer \<Rightarrow> layer) \<Rightarrow> state \<Rightarrow> state" where
  "update_object i f s =
     (let g = (\<lambda>l. if layer_id l = i then f l else l)
      in s\<lparr>layers := map g (layers s),
           propertyMarkers := map g (propertyMarkers s),
           currentRouteLayer := map_option g (currentRouteLayer s),
           userLocationMarker := map_option g (userLocationMarker s)\<rparr>)"

fun with_popup :: "content \<Rightarrow> layer \<Rightarrow> layer" where
  "with_popup c (Marker i pos ic _) = Marker i pos ic (Some c)"
| "with_popup c l = l"

fun with_latlng :: "latlng \<Rightarrow> layer \<Rightarrow> layer" where
  "with_latlng pos (Marker i _ ic c) = Marker i pos ic c"
| "with_latlng pos l = l"

definition bindPopup :: "nat \<Rightarrow> content \<Rightarrow> state \<Rightarrow> state" where
  "bindPopup i c s = update_object i (with_popup c) s"

definition setLatLng :: "nat \<Rightarrow> latlng \<Rightarrow> state \<Rightarrow> state" where
  "setLatLng i pos s = update_object i (with_latlng pos) s"

fun searchLocation_then :: "geocode_data outcome \<Rightarrow> state \<Rightarrow> state" where
  "searchLocation_then (Resolved d) s =
     (if g_success d then
        (let pos = (g_lat d, g_lng d);
             s1 = setView pos 14 s;
             (i, s2) = fresh s1;
             s3 = addTo (Marker i pos None None) s2;
             s4 = bindPopup i (Html (formatted_address d)) s3
         in openPopup (Marker i pos None (Some (Html (formatted_address d)))) s4)
      else log_call (Alert (error_or_default (g_error d))) s)"
| "searchLocation_then (Rejected e) s =
     log_call (ConsoleError (''Error searching location: '' @ e)) s"

text \<open>The continuation of \<open>searchProperties\<close>: \<open>location\<close> is the value the handler read
  from the form before the request.\<close>

fun searchProperties_then ::
  "host \<Rightarrow> string \<Rightarrow> string \<Rightarrow> property list outcome \<Rightarrow> state \<Rightarrow> state" where
  "searchProperties_then h location field (Resolved properties) s =
     (let s1 = displayProperties h properties s
      in if location \<noteq> [] then searchLocation (Some location) field s1 else s1)"
| "searchProperties_then h location field (Rejected e) s =
     log_call (ConsoleError (''Error searching properties: '' @ e)) s"

subsection \<open>Routes\<close>

record route_data =
  r_success :: bool
  r_start :: latlng
  waypoints :: "latlng list"
  r_end :: latlng
  distance :: real
  duration :: real

text \<open>\<open>Math.round\<close> rounds half up.\<close>

definition Math_round :: "real \<Rightarrow> int" where
  "Math_round x = \<lfloor>x + 1 / 2\<rfloor>"

text \<open>The synchronous part of \<open>showRoute\<close>: the old layer goes, the request is sent.
  The drawing options of the line (colour, weight, opacity) are constants and are left
  out of \<open>Polyline\<close>.\<close>

definition showRoute :: "real \<Rightarrow> real \<Rightarrow> real \<Rightarrow> real \<Rightarrow> state \<Rightarrow> state" where
  "showRoute startLat startLng endLat endLng s =
     (let s1 = (case currentRouteLayer s of None \<Rightarrow> s | Some l \<Rightarrow> removeLayer l s)
      in log_call (Fetch (GetRoute startLat startLng endLat endLng)) s1)"

definition route_points :: "route_data \<Rightarrow> latlng list" where
  "route_points rd = r_start rd # waypoints rd @ [r_end rd]"

definition route_message :: "host \<Rightarrow> route_data \<Rightarrow> string" where
  "route_message h rd =
     ''Distance: '' @ toString h (distance rd) @ '' km, Duration: '' @
     toString h (of_int (Math_round (duration rd))) @ '' minutes''"

fun showRoute_then :: "host \<Rightarrow> route_data outcome \<Rightarrow> state \<Rightarrow> state" where
  "showRoute_then h (Resolved routeData) s =
     (if r_success routeData then
        (let points = route_points routeData;
             (i, s1) = fresh s;
             line = Polyline i points;
             s2 = (addTo line s1)\<lparr>currentRouteLayer := Some line\<rparr>;
             s3 = s2\<lparr>map_view := FitBounds (line_points line) (50, 50)\<rparr>
         in openOn \<lparr>anchor = points ! (length points div 2),
                    shown = Html (route_message h routeData),
                    source = None\<rparr> s3)
      else s)"
| "showRoute_then h (Rejected e) s =
     log_call (ConsoleError (''Error calculating route: '' @ e)) s"

subsection \<open>User location\<close>

datatype geolocation = Unsupported | Denied string | Position real real

definition user_icon :: icon where
  "user_icon = \<lparr>className = ''user-location-marker'',
                html = ''<i class=\"fas fa-user-circle fa-3x\" style=\"color: #0d6efd;\"></i>'',
                iconSize = (30, 30), iconAnchor = Some (15, 15)\<rparr>"

text \<open>
  \<open>getUserLocation(callback)\<close> with what the browser answers. The only callback the
  source passes is the one of the route button, which calls \<open>showRoute\<close> towards the
  property; \<open>callback\<close> is its destination.
\<close>

fun getUserLocation :: "geolocation \<Rightarrow> latlng option \<Rightarrow> state \<Rightarrow> state" where
  "getUserLocation Unsupported callback s =
     log_call (Alert ''Geolocation is not supported by your browser.'') s"
| "getUserLocation (Denied e) callback s =
     log_call (Alert ''Could not determine your location. Please allow location access.'')
       (log_call (ConsoleError (''Error getting location: '' @ e)) s)"
| "getUserLocation (Position la lo) callback s =
     (let s1 = (case userLocationMarker s of
                  Some m \<Rightarrow> setLatLng (layer_id m) (la, lo) s
                | None \<Rightarrow>
                    (let (i, t) = fresh s;
                         m = Marker i (la, lo) (Some user_icon) None
                     in (addTo m t)\<lparr>userLocationMarker := Some m\<rparr>));
          s2 = setView (la, lo) 15 s1
      in case callback of
           None \<Rightarrow> s2
         | Some dest \<Rightarrow> showRoute la lo (fst dest) (snd dest) s2)"

text \<open>
  A click on the route button of a property popup. Without a user marker the handler
  calls \<open>getUserLocation\<close> with the callback and returns; what the browser answers is
  handled later, by \<open>getUserLocation\<close> above.
\<close>

definition route_button :: "latlng \<Rightarrow> state \<Rightarrow> state" where
  "route_button dest s =
     (case userLocationMarker s of
        Some m \<Rightarrow>
          (case getLatLng m of
             Some userLatLng \<Rightarrow> showRoute (fst userLatLng) (snd userLatLng) (fst dest) (snd dest) s
           | None \<Rightarrow> s)
      | None \<Rightarrow> s)"

text \<open>A click on a sidebar card.\<close>

fun open_matching :: "property \<Rightarrow> layer list \<Rightarrow> state \<Rightarrow> state" where
  "open_matching p [] s = s"
| "open_matching p (m # ms) s =
     open_matching p ms (if getLatLng m = Some (lat p, lng p) then openPopup m s else s)"

definition card_click :: "property \<Rightarrow> state \<Rightarrow> state" where
  "card_click p s = open_matching p (propertyMarkers s) (setView (lat p, lng p) 16 s)"


subsection \<open>Price estimate\<close>

text \<open>The controls of the estimate form: the text of each input, the state of each
  checkbox.\<close>

record estimate_form =
  est_property_type :: string
  est_location :: string
  est_bedrooms :: string
  est_bathrooms :: string
  est_area :: string
  est_age :: string
  est_condition :: string
  est_garage :: bool
  est_pool :: bool
  est_garden :: bool
  est_security :: bool
  est_aircon :: bool
  est_furnished :: bool

text \<open>The object \<open>estimateData\<close>, its keys in the order of the source.\<close>

definition estimateData :: "host \<Rightarrow> estimate_form \<Rightarrow> (string \<times> jsval) list" where
  "estimateData h f =
     [(''property_type'', VStr (est_property_type f)),
      (''location'', VStr (est_location f)),
      (''bedrooms'', VNum (parseInt h (est_bedrooms f))),
      (''bathrooms'', VNum (parseInt h (est_bathrooms f))),
      (''area'', VNum (parseFloat h (est_area f))),
      (''age'', VNum (parseInt h (est_age f))),
      (''condition'', VStr (est_condition f)),
      (''garage'', VBool (est_garage f)),
      (''pool'', VBool (est_pool f)),
      (''garden'', VBool (est_garden f)),
      (''security'', VBool (est_security f)),
      (''aircon'', VBool (est_aircon f)),
      (''furnished'', VBool (est_furnished f))]"

text \<open>
  \<open>JSON.stringify\<close> on an object of primitive values. JSON has no \<open>NaN\<close> and no
  infinity: a number that is not finite is written as \<open>null\<close>. The body of the request
  is kept as the document it denotes, a list of keys and values, not as its text.
\<close>

fun json_value :: "jsval \<Rightarrow> jsval" where
  "json_value (VNum (Num r)) = VNum (Num r)"
| "json_value (VNum _) = VNull"
| "json_value v = v"

definition JSON_stringify :: "(string \<times> jsval) list \<Rightarrow> (string \<times> jsval) list" where
  "JSON_stringify obj = map (\<lambda>(k, v). (k, json_value v)) obj"

definition calculatePriceEstimate :: "host \<Rightarrow> estimate_form \<Rightarrow> state \<Rightarrow> state" where
  "calculatePriceEstimate h f s =
     (let propertyType = est_property_type f;
          location = est_location f;
          area = parseFloat h (est_area f)
      in if propertyType = [] \<or> location = [] \<or> isNaN area \<or> le_zero area
         then log_call (Alert ''Please fill in all required fields.'') s
         else log_call (Fetch (PostEstimate (JSON_stringify (estimateData h f)))) s)"

fun calculatePriceEstimate_then :: "host \<Rightarrow> real outcome \<Rightarrow> state \<Rightarrow> state" where
  "calculatePriceEstimate_then h (Resolved estimated_price) s =
     s\<lparr>estimated_price_value := ''$'' @ toLocaleString h estimated_price,
       estimation_result_shown := True\<rparr>"
| "calculatePriceEstimate_then h (Rejected e) s =
     log_call (Alert ''An error occurred while calculating the price estimate.'')
       (log_call (ConsoleError (''Error calculating estimate: '' @ e)) s)"

subsection \<open>The page as an event system\<close>

text \<open>\<open>initMap\<close>: the street layer is on the map, the satellite layer is made but not
  added.\<close>

definition initMap :: state where
  "initMap =
     \<lparr>layers = [TileLayer 0 ''https://{s}.tile.openstreetmap.org/{z}/{x}/{y}.png''],
      map_view = SetView (-22.559, 17.083) 13,
      popup = None,
      next_id = 2,
      propertyMarkers = [],
      currentRouteLayer = None,
      userLocationMarker = None,
      propertyList = [],
      resultCount = None,
      estimated_price_value = [],
      estimation_result_shown = False,
      calls = []\<rparr>"

text \<open>
  Everything the event loop can run after \<open>initMap\<close> and \<open>initUI\<close>: a handler wired by
  \<open>initUI\<close> or by a popup, or the continuation of a request. The toggles of the search
  panel, of the sidebar and of the estimate dialog change nothing of the state above and
  are left out.
\<close>

datatype event =
    PageLoaded
  | PropertiesReturned "property list outcome"
  | SearchSubmitted search_form
  | SearchReturned string string "property list outcome"
  | LocationSearch string
  | GeocodeReturned "geocode_data outcome"
  | RouteButton latlng
  | Geolocated geolocation "latlng option"
  | RouteReturned "route_data outcome"
  | EstimateClicked estimate_form
  | EstimateReturned "real outcome"
  | CardClicked property

fun step :: "host \<Rightarrow> event \<Rightarrow> state \<Rightarrow> state" where
  "step h PageLoaded s = loadProperties s"
| "step h (PropertiesReturned r) s = loadProperties_then h r s"
| "step h (SearchSubmitted f) s = searchProperties f s"
| "step h (SearchReturned location field r) s = searchProperties_then h location field r s"
| "step h (LocationSearch field) s = searchLocation None field s"
| "step h (GeocodeReturned r) s = searchLocation_then r s"
| "step h (RouteButton dest) s = route_button dest s"
| "step h (Geolocated g callback) s = getUserLocation g callback s"
| "step h (RouteReturned r) s = showRoute_then h r s"
| "step h (EstimateClicked f) s = calculatePriceEstimate h f s"
| "step h (EstimateReturned r) s = calculatePriceEstimate_then h r s"
| "step h (CardClicked p) s = card_click p s"

fun run :: "host \<Rightarrow> event list \<Rightarrow> state \<Rightarrow> state" where
  "run h [] s = s"
| "run h (e # es) s = run h es (step h e s)"

text \<open>Identities are handed out once: every layer on the map is older than the
  counter.\<close>

definition fresh_ids :: "state \<Rightarrow> bool" where
  "fresh_ids s = (\<forall>l \<in> set (layers s). layer_id l < next_id s)"

text \<open>The same for every object the globals refer to; and no two layers on the map
  share an identity.\<close>

definition wf :: "state \<Rightarrow> bool" where
  "wf s =
     (fresh_ids s \<and>
      (\<forall>l \<in> set (propertyMarkers s). layer_id l < next_id s) \<and>
      (\<forall>l \<in> set_option (currentRouteLayer s). layer_id l < next_id s) \<and>
      (\<forall>l \<in> set_option (userLocationMarker s). layer_id l < next_id s) \<and>
      distinct (map layer_id (layers s)))"

subsection \<open>Notions for the statements\<close>

text \<open>The markers and the cards of one render pass that starts with the counter at
  \<open>n\<close>: the k-th property gets the marker with identity \<open>n + k\<close>.\<close>

definition new_markers :: "host \<Rightarrow> nat \<Rightarrow> property list \<Rightarrow> layer list" where
  "new_markers h n ps = map (\<lambda>(i, p). property_marker h i p) (enumerate n ps)"

definition new_cards :: "host \<Rightarrow> property list \<Rightarrow> card list" where
  "new_cards h ps =
     map (\<lambda>p. \<lparr>card_heading = ''N$'' @ toLocaleString h (price p), card_property = p\<rparr>) ps"

text \<open>The open popup after the layers with the identities \<open>ids\<close> have left the map.\<close>

definition close_bound :: "nat set \<Rightarrow> open_popup option \<Rightarrow> open_popup option" where
  "close_bound ids p =
     (case p of None \<Rightarrow> None
      | Some q \<Rightarrow> (case source q of None \<Rightarrow> Some q
                   | Some i \<Rightarrow> if i \<in> ids then None else Some q))"

text \<open>An object that none of the globals refers to, and a layer on the map that is
  such an object.\<close>

definition unowned :: "nat \<Rightarrow> state \<Rightarrow> bool" where
  "unowned i s =
     (i < next_id s \<and>
      i \<notin> layer_id ` set (propertyMarkers s) \<and>
      i \<notin> layer_id ` set_option (currentRouteLayer s) \<and>
      i \<notin> layer_id ` set_option (userLocationMarker s))"

definition held :: "layer \<Rightarrow> state \<Rightarrow> bool" where
  "held l s = (wf s \<and> l \<in> set (layers s) \<and> unowned (layer_id l) s)"

text \<open>The requests among the calls of a log.\<close>

fun fetches :: "host_call list \<Rightarrow> request list" where
  "fetches [] = []"
| "fetches (Fetch r # cs) = r # fetches cs"
| "fetches (c # cs) = fetches cs"

text \<open>How many route requests the page has sent.\<close>

fun is_route_request :: "request \<Rightarrow> bool" where
  "is_route_request (GetRoute a b c d) = True"
| "is_route_request r = False"

definition route_requests :: "state \<Rightarrow> nat" where
  "route_requests s = length (filter is_route_request (fetches (calls s)))"

text \<open>
  A history in which route requests do not overlap: a route response arrives only
  while a request is pending, and a handler sends a route request only while none is.
\<close>

fun non_overlapping :: "host \<Rightarrow> bool \<Rightarrow> event list \<Rightarrow> state \<Rightarrow> bool" where
  "non_overlapping h pending [] s = True"
| "non_overlapping h pending (RouteReturned r # es) s =
     (pending \<and> non_overlapping h False es (step h (RouteReturned r) s))"
| "non_overlapping h pending (e # es) s =
     (if route_requests s < route_requests (step h e s)
      then \<not> pending \<and> non_overlapping h True es (step h e s)
      else non_overlapping h pending es (step h e s))"

text \<open>Every route layer on the map is the one \<open>currentRouteLayer\<close> refers to, and there
  is none while a request is pending.\<close>

definition route_inv :: "bool \<Rightarrow> state \<Rightarrow> bool" where
  "route_inv pending s =
     (wf s \<and> (\<forall>l \<in> set (layers s). is_route l \<longrightarrow> \<not> pending \<and> currentRouteLayer s = Some l))"

text \<open>The area the estimate form asks for, in the words of the specification: a
  strictly positive number.\<close>

fun strictly_positive :: "jsnum \<Rightarrow> bool" where
  "strictly_positive (Num r) = (0 < r)"
| "strictly_positive PosInf = True"
| "strictly_positive NegInf = False"
| "strictly_positive NaN = False"

text \<open>A route request fails when it is rejected or answered with \<open>success: false\<close>.\<close>

fun failed :: "route_data outcome \<Rightarrow> bool" where
  "failed (Rejected e) = True"
| "failed (Resolved routeData) = (\<not> r_success routeData)"

subsection \<open>A browser for the closed examples\<close>

text \<open>
  The theorems below hold for every \<open>host\<close>. Their closed instances need one: an en-US
  browser, written out as far as the examples go. Its parsers follow the grammar of
  \<open>parseInt\<close> (no radix given) and \<open>parseFloat\<close> on ASCII text and return the exact
  value of the numeral they read, without the rounding to a double. Its two number
  formatters print whole numbers; they drop a fraction.
\<close>

definition is_space :: "char \<Rightarrow> bool" where
  "is_space c = (c \<in> set [CHR '' '', CHR 0x09, CHR 0x0A, CHR 0x0B, CHR 0x0C, CHR 0x0D])"

definition digit_value :: "char \<Rightarrow> nat option" where
  "digit_value c = map_of (zip ''0123456789'' [0, 1, 2, 3, 4, 5, 6, 7, 8, 9]) c"

definition hex_value :: "char \<Rightarrow> nat option" where
  "hex_value c =
     map_of (zip ''0123456789abcdefABCDEF''
               [0, 1, 2, 3, 4, 5, 6, 7, 8, 9, 10, 11, 12, 13, 14, 15, 10, 11, 12, 13, 14, 15]) c"

definition is_digit :: "char \<Rightarrow> bool" where
  "is_digit c = (digit_value c \<noteq> None)"

definition numeral_value :: "nat \<Rightarrow> (char \<Rightarrow> nat option) \<Rightarrow> string \<Rightarrow> nat" where
  "numeral_value radix dv ds =
     foldl (\<lambda>n c. radix * n + (case dv c of None \<Rightarrow> 0 | Some d \<Rightarrow> d)) 0 ds"

fun strip_sign :: "string \<Rightarrow> bool \<times> string" where
  "strip_sign [] = (False, [])"
| "strip_sign (c # r) =
     (if c = CHR ''-'' then (True, r) else if c = CHR ''+'' then (False, r) else (False, c # r))"

fun strip_0x :: "string \<Rightarrow> string option" where
  "strip_0x (z # x # r) =
     (if z = CHR ''0'' \<and> (x = CHR ''x'' \<or> x = CHR ''X'') then Some r else None)"
| "strip_0x _ = None"

definition signed :: "bool \<Rightarrow> real \<Rightarrow> real" where
  "signed neg r = (if neg then - r else r)"

definition parseInt_exact :: "string \<Rightarrow> jsnum" where
  "parseInt_exact str =
     (let (neg, s) = strip_sign (dropWhile is_space str);
          (radix, dv, t) = (case strip_0x s of
                              Some r \<Rightarrow> (16, hex_value, r)
                            | None \<Rightarrow> (10, digit_value, s));
          z = takeWhile (\<lambda>c. dv c \<noteq> None) t
      in if z = [] then NaN else Num (signed neg (real (numeral_value radix dv z))))"

text \<open>The exponent part counts only when it has a digit.\<close>

fun exponent :: "string \<Rightarrow> int" where
  "exponent [] = 0"
| "exponent (c # r) =
     (if c = CHR ''e'' \<or> c = CHR ''E'' then
        (let (neg, t) = strip_sign r;
             ds = takeWhile is_digit t
         in if ds = [] then 0
            else if neg then - int (numeral_value 10 digit_value ds)
            else int (numeral_value 10 digit_value ds))
      else 0)"

definition scale10 :: "int \<Rightarrow> real \<Rightarrow> real" where
  "scale10 e r = (if e < 0 then r / 10 ^ nat (- e) else r * 10 ^ nat e)"

definition parseFloat_exact :: "string \<Rightarrow> jsnum" where
  "parseFloat_exact str =
     (let (neg, s) = strip_sign (dropWhile is_space str)
      in if take 8 s = ''Infinity'' then (if neg then NegInf else PosInf)
         else
           (let ip = takeWhile is_digit s;
                r1 = dropWhile is_digit s;
                (fp, r2) = (case r1 of
                              [] \<Rightarrow> ([], [])
                            | c # r \<Rightarrow> if c = CHR ''.''
                                       then (takeWhile is_digit r, dropWhile is_digit r)
                                       else ([], r1))
            in if ip = [] \<and> fp = [] then NaN
               else Num (signed neg (scale10 (exponent r2)
                      (real (numeral_value 10 digit_value ip) +
                       real (numeral_value 10 digit_value fp) / 10 ^ length fp)))))"

definition digit_char :: "nat \<Rightarrow> char" where
  "digit_char d = ''0123456789'' ! (d mod 10)"

function decimal :: "nat \<Rightarrow> string" where
  "decimal n = (if n < 10 then [digit_char n] else decimal (n div 10) @ [digit_char n])"
  by pat_completeness auto
termination
  by (relation "measure id") auto

declare decimal.simps [simp del]

text \<open>Groups of three digits from the right, on the reversed digits.\<close>

fun group3 :: "string \<Rightarrow> string" where
  "group3 (a # b # c # d # r) = a # b # c # CHR '','' # group3 (d # r)"
| "group3 ds = ds"

definition whole_part :: "real \<Rightarrow> nat" where
  "whole_part r = nat \<lfloor>\<bar>r\<bar>\<rfloor>"

definition toString_whole :: "real \<Rightarrow> string" where
  "toString_whole r = (if r < 0 then ''-'' else []) @ decimal (whole_part r)"

definition toLocaleString_enUS :: "real \<Rightarrow> string" where
  "toLocaleString_enUS r =
     (if r < 0 then ''-'' else []) @ rev (group3 (rev (decimal (whole_part r))))"

definition browser :: host where
  "browser = \<lparr>toLocaleString = toLocaleString_enUS, toString = toString_whole,
              parseInt = parseInt_exact, parseFloat = parseFloat_exact\<rparr>"

text \<open>Two listings for the examples.\<close>

definition house :: property where
  "house = \<lparr>lat = -22.56, lng = 17.08, price = 250000, bedrooms = 3, bathrooms = 2,
             area = 180, address = ''12 Independence Ave'', image_url = ''/static/img/1.jpg'',
             type_name = ''residential''\<rparr>"

definition flat :: property where
  "flat = \<lparr>lat = -22.57, lng = 17.09, price = 200000, bedrooms = 2, bathrooms = 1,
            area = 75, address = ''3 Sam Nujoma Dr'', image_url = ''/static/img/2.jpg'',
            type_name = ''residential''\<rparr>"

text \<open>A route with two waypoints, a second route, and the page with the first one
  drawn.\<close>

definition route_a :: route_data where
  "route_a = \<lparr>r_success = True, r_start = (-22.56, 17.08),
               waypoints = [(-22.562, 17.083), (-22.566, 17.087)],
               r_end = (-22.57, 17.09), distance = 8, duration = 12.5\<rparr>"

definition route_b :: route_data where
  "route_b = \<lparr>r_success = True, r_start = (-22.56, 17.08), waypoints = [(-22.55, 17.07)],
               r_end = (-22.54, 17.06), distance = 5, duration = 7.2\<rparr>"

definition route_shown :: state where
  "route_shown = showRoute_then browser (Resolved route_a) initMap"

text \<open>Geocode answers.\<close>

definition not_found :: geocode_data where
  "not_found = \<lparr>g_success = False, g_lat = 0, g_lng = 0, formatted_address = [],
                 g_error = Some ''Not found''\<rparr>"

definition no_reason :: geocode_data where
  "no_reason = \<lparr>g_success = False, g_lat = 0, g_lng = 0, formatted_address = [],
                 g_error = None\<rparr>"

definition found :: geocode_data where
  "found = \<lparr>g_success = True, g_lat = -22.5609, g_lng = 17.0658,
             formatted_address = ''Windhoek, Namibia'', g_error = None\<rparr>"

text \<open>Estimate forms: one filled in, one with no area, one with the three unchecked
  fields empty or not numeric.\<close>

definition filled_form :: estimate_form where
  "filled_form = \<lparr>est_property_type = ''house'', est_location = ''Windhoek'',
                   est_bedrooms = ''3'', est_bathrooms = ''2'', est_area = ''120.5'',
                   est_age = ''10'', est_condition = ''good'', est_garage = True,
                   est_pool = False, est_garden = True, est_security = False,
                   est_aircon = False, est_furnished = False\<rparr>"

definition zero_area_form :: estimate_form where
  "zero_area_form = filled_form\<lparr>est_area := ''0''\<rparr>"

definition blank_rooms_form :: estimate_form where
  "blank_rooms_form = filled_form\<lparr>est_bedrooms := [], est_bathrooms := ''abc'', est_age := []\<rparr>"

section \<open>Properties\<close>

subsection \<open>What one render pass does to the state\<close>

lemma layer_id_property_marker [simp]: "layer_id (property_marker h i p) = i"
  by (simp add: property_marker_def)

lemma new_markers_simps [simp]:
  "new_markers h n [] = []"
  "new_markers h n (p # ps) = property_marker h n p # new_markers h (Suc n) ps"
  by (simp_all add: new_markers_def)

lemma new_cards_simps [simp]:
  "new_cards h [] = []"
  "new_cards h (p # ps) =
     \<lparr>card_heading = ''N$'' @ toLocaleString h (price p), card_property = p\<rparr> # new_cards h ps"
  by (simp_all add: new_cards_def)

lemma length_new_markers [simp]: "length (new_markers h n ps) = length ps"
  by (simp add: new_markers_def)

lemma ids_new_markers [simp]: "map layer_id (new_markers h n ps) = [n..<n + length ps]"
  by (simp add: new_markers_def comp_def case_prod_beta flip: map_fst_enumerate)

lemma close_bound_simps [simp]:
  "close_bound {} p = p"
  "close_bound ids None = None"
  by (simp_all add: close_bound_def split: option.splits)

lemma ids_filter_neq:
  "layer_id ` set (filter (\<lambda>x. layer_id x \<noteq> i) ls) = layer_id ` set ls - {i}"
  by auto

lemma removeLayer_eq:
  "removeLayer l s =
     s\<lparr>layers := filter (\<lambda>x. layer_id x \<noteq> layer_id l) (layers s),
       popup := close_bound ({layer_id l} \<inter> layer_id ` set (layers s)) (popup s),
       calls := calls s @ [RemoveLayer (layer_id l)]\<rparr>"
proof (cases "on_map l s")
  case True
  then have "{layer_id l} \<inter> layer_id ` set (layers s) = {layer_id l}"
    by (auto simp: on_map_def)
  then show ?thesis using True
    by (cases "popup s") (auto simp: removeLayer_def log_call_def close_bound_def split: option.splits)
next
  case False
  then have e: "{layer_id l} \<inter> layer_id ` set (layers s) = {}"
    by (auto simp: on_map_def)
  have "filter (\<lambda>x. layer_id x \<noteq> layer_id l) (layers s) = layers s"
    using False unfolding on_map_def filter_id_conv by (metis imageI)
  then show ?thesis using False
    by (simp add: removeLayer_def log_call_def e)
qed

lemma close_bound_twice:
  "close_bound B (close_bound A p) = close_bound (A \<union> B) p"
  by (auto simp: close_bound_def split: option.splits)

lemma remove_each_eq:
  "remove_each ms s =
     s\<lparr>layers := filter (\<lambda>x. layer_id x \<notin> layer_id ` set ms) (layers s),
       popup := close_bound (layer_id ` set ms \<inter> layer_id ` set (layers s)) (popup s),
       calls := calls s @ map (\<lambda>m. RemoveLayer (layer_id m)) ms\<rparr>"
proof (induction ms arbitrary: s)
  case Nil
  show ?case by simp
next
  case (Cons m ms)
  have f: "filter (\<lambda>x. layer_id x \<notin> layer_id ` set ms) (filter (\<lambda>x. layer_id x \<noteq> layer_id m) (layers s))
         = filter (\<lambda>x. layer_id x \<notin> layer_id ` set (m # ms)) (layers s)"
    by (auto intro: filter_cong)
  have "({layer_id m} \<inter> layer_id ` set (layers s)) \<union>
        (layer_id ` set ms \<inter> (layer_id ` set (layers s) - {layer_id m}))
        = layer_id ` set (m # ms) \<inter> layer_id ` set (layers s)"
    by auto
  then have c: "close_bound (layer_id ` set ms \<inter> layer_id ` set (filter (\<lambda>x. layer_id x \<noteq> layer_id m) (layers s)))
            (close_bound ({layer_id m} \<inter> layer_id ` set (layers s)) (popup s))
         = close_bound (layer_id ` set (m # ms) \<inter> layer_id ` set (layers s)) (popup s)"
    unfolding close_bound_twice ids_filter_neq by simp
  show ?case
    unfolding remove_each.simps Cons.IH removeLayer_eq using f c by simp
qed

lemma addPropertyToMap_eq:
  assumes "fresh_ids s"
  shows "addPropertyToMap h p s =
     s\<lparr>layers := layers s @ [property_marker h (next_id s) p],
       next_id := Suc (next_id s),
       propertyMarkers := propertyMarkers s @ [property_marker h (next_id s) p]\<rparr>"
proof -
  have "next_id s \<notin> layer_id ` set (layers s)"
    using assms by (auto simp: fresh_ids_def)
  then show ?thesis
    by (simp add: addPropertyToMap_def fresh_def addTo_def on_map_def Let_def)
qed

lemma render_each_eq:
  assumes "fresh_ids s"
  shows "render_each h ps s =
     s\<lparr>layers := layers s @ new_markers h (next_id s) ps,
       next_id := next_id s + length ps,
       propertyMarkers := propertyMarkers s @ new_markers h (next_id s) ps,
       propertyList := propertyList s @ new_cards h ps\<rparr>"
  using assms
proof (induction ps arbitrary: s)
  case Nil
  show ?case by simp
next
  case (Cons p ps)
  let ?t = "addPropertyToList h p (addPropertyToMap h p s)"
  have t: "?t = s\<lparr>layers := layers s @ [property_marker h (next_id s) p],
       next_id := Suc (next_id s),
       propertyMarkers := propertyMarkers s @ [property_marker h (next_id s) p],
       propertyList := propertyList s @ new_cards h [p]\<rparr>"
    by (simp add: addPropertyToMap_eq [OF Cons.prems] addPropertyToList_def)
  have "fresh_ids ?t"
    using Cons.prems unfolding t by (auto simp: fresh_ids_def)
  from Cons.IH [OF this] show ?case
    unfolding render_each.simps by (simp add: t)
qed

lemma displayProperties_eq:
  assumes "fresh_ids s"
  shows "displayProperties h ps s =
     s\<lparr>layers := filter (\<lambda>x. layer_id x \<notin> layer_id ` set (propertyMarkers s)) (layers s)
                  @ new_markers h (next_id s) ps,
       popup := close_bound (layer_id ` set (propertyMarkers s) \<inter> layer_id ` set (layers s)) (popup s),
       next_id := next_id s + length ps,
       propertyMarkers := new_markers h (next_id s) ps,
       propertyList := new_cards h ps,
       resultCount := Some (length ps),
       calls := calls s @ map (\<lambda>m. RemoveLayer (layer_id m)) (propertyMarkers s)\<rparr>"
proof -
  let ?t = "(clearPropertyMarkers s)\<lparr>propertyList := []\<rparr>"
  have "fresh_ids ?t"
    using assms by (simp add: clearPropertyMarkers_def remove_each_eq fresh_ids_def)
  from render_each_eq [OF this] show ?thesis
    by (simp add: displayProperties_def Let_def clearPropertyMarkers_def remove_each_eq)
qed


lemmas browser_simps = browser_def toLocaleString_enUS_def toString_whole_def whole_part_def
  digit_char_def decimal.simps parseInt_exact_def parseFloat_exact_def is_space_def
  digit_value_def hex_value_def is_digit_def numeral_value_def signed_def scale10_def

lemma fresh_ids_initMap: "fresh_ids initMap"
  by (simp add: fresh_ids_def initMap_def)

lemma fresh_ids_displayProperties:
  assumes "fresh_ids s"
  shows "fresh_ids (displayProperties h ps s)"
proof -
  have "\<forall>l \<in> set (new_markers h (next_id s) ps). layer_id l < next_id s + length ps"
  proof
    fix l assume "l \<in> set (new_markers h (next_id s) ps)"
    then have "layer_id l \<in> set (map layer_id (new_markers h (next_id s) ps))"
      by (simp del: ids_new_markers)
    then show "layer_id l < next_id s + length ps"
      by simp
  qed
  then show ?thesis
    using assms unfolding displayProperties_eq [OF assms]
    by (auto simp: fresh_ids_def)
qed

subsection \<open>Listing renderer\<close>

text \<open>
  Claim C1. Two result sets \<open>R1\<close> then \<open>R2\<close> are rendered in sequence by
  \<open>displayProperties\<close>. After the second pass \<open>propertyMarkers\<close> holds exactly one
  marker per property of \<open>R2\<close>, in order and with distinct identities; the map shows
  what it showed before without the markers of \<open>R1\<close>, followed by the new markers; no
  marker of \<open>R1\<close> is on the map or in the collection, each of them was handed to
  \<open>removeLayer\<close>; and the result count is the length of \<open>R2\<close>, also when \<open>R2\<close> is
  empty.
\<close>

theorem displayProperties_replaces:
  assumes "fresh_ids s"
  shows "let s1 = displayProperties h R1 s; s2 = displayProperties h R2 s1 in
       propertyMarkers s2 = new_markers h (next_id s1) R2
     \<and> length (propertyMarkers s2) = length R2
     \<and> distinct (map layer_id (propertyMarkers s2))
     \<and> layers s2 =
         filter (\<lambda>x. layer_id x \<notin> layer_id ` set (propertyMarkers s1)) (layers s1)
         @ propertyMarkers s2
     \<and> (\<forall>m \<in> set (propertyMarkers s1).
          \<not> on_map m s2 \<and> layer_id m \<notin> layer_id ` set (propertyMarkers s2))
     \<and> calls s2 = calls s1 @ map (\<lambda>m. RemoveLayer (layer_id m)) (propertyMarkers s1)
     \<and> resultCount s2 = Some (length R2)"
proof -
  define s1 where "s1 = displayProperties h R1 s"
  define s2 where "s2 = displayProperties h R2 s1"
  have f1: "fresh_ids s1"
    unfolding s1_def by (rule fresh_ids_displayProperties [OF assms])
  have pm1: "map layer_id (propertyMarkers s1) = [next_id s..<next_id s + length R1]"
    and n1: "next_id s1 = next_id s + length R1"
    unfolding s1_def displayProperties_eq [OF assms] by simp_all
  have s2_eq: "s2 = s1\<lparr>layers := filter (\<lambda>x. layer_id x \<notin> layer_id ` set (propertyMarkers s1)) (layers s1)
                  @ new_markers h (next_id s1) R2,
       popup := close_bound (layer_id ` set (propertyMarkers s1) \<inter> layer_id ` set (layers s1)) (popup s1),
       next_id := next_id s1 + length R2,
       propertyMarkers := new_markers h (next_id s1) R2,
       propertyList := new_cards h R2,
       resultCount := Some (length R2),
       calls := calls s1 @ map (\<lambda>m. RemoveLayer (layer_id m)) (propertyMarkers s1)\<rparr>"
    unfolding s2_def by (rule displayProperties_eq [OF f1])
  have ids2: "layer_id ` set (propertyMarkers s2) = {next_id s1..<next_id s1 + length R2}"
  proof -
    have "layer_id ` set (propertyMarkers s2) = set (map layer_id (propertyMarkers s2))"
      by simp
    also have "\<dots> = {next_id s1..<next_id s1 + length R2}"
      unfolding s2_eq by simp
    finally show ?thesis .
  qed
  have ids1: "layer_id ` set (propertyMarkers s1) = {next_id s..<next_id s + length R1}"
  proof -
    have "layer_id ` set (propertyMarkers s1) = set (map layer_id (propertyMarkers s1))"
      by simp
    also have "\<dots> = {next_id s..<next_id s + length R1}"
      unfolding pm1 by simp
    finally show ?thesis .
  qed
  have a: "propertyMarkers s2 = new_markers h (next_id s1) R2"
    unfolding s2_eq by simp
  have b: "length (propertyMarkers s2) = length R2"
    unfolding a by simp
  have c: "distinct (map layer_id (propertyMarkers s2))"
    unfolding a by simp
  have d: "layers s2 =
         filter (\<lambda>x. layer_id x \<notin> layer_id ` set (propertyMarkers s1)) (layers s1)
         @ propertyMarkers s2"
    unfolding s2_eq by simp
  have e: "\<forall>m \<in> set (propertyMarkers s1).
          \<not> on_map m s2 \<and> layer_id m \<notin> layer_id ` set (propertyMarkers s2)"
  proof
    fix m assume m: "m \<in> set (propertyMarkers s1)"
    then have lt: "layer_id m < next_id s1"
      using ids1 n1 by auto
    then have notin2: "layer_id m \<notin> layer_id ` set (propertyMarkers s2)"
      unfolding ids2 by simp
    have "layer_id m \<in> layer_id ` set (propertyMarkers s1)"
      using m by (rule imageI)
    then have "layer_id m \<notin> layer_id ` set (filter (\<lambda>x. layer_id x \<notin> layer_id ` set (propertyMarkers s1)) (layers s1))"
      by force
    then have "\<not> on_map m s2"
      unfolding on_map_def d using notin2 by auto
    then show "\<not> on_map m s2 \<and> layer_id m \<notin> layer_id ` set (propertyMarkers s2)"
      using notin2 by simp
  qed
  have f: "calls s2 = calls s1 @ map (\<lambda>m. RemoveLayer (layer_id m)) (propertyMarkers s1)"
    unfolding s2_eq by simp
  have g: "resultCount s2 = Some (length R2)"
    unfolding s2_eq by simp
  show ?thesis
    using a b c d e f g unfolding Let_def s1_def s2_def by blast
qed


theorem displayProperties_replaces_witness:
  "fresh_ids initMap \<and>
   (let s1 = displayProperties browser [house, flat] initMap;
        s2 = displayProperties browser [flat] s1
    in map layer_id (propertyMarkers s1) = [2, 3]
     \<and> propertyMarkers s2 = new_markers browser 4 [flat]
     \<and> map layer_id (layers s2) = [0, 4]
     \<and> calls s2 = [RemoveLayer 2, RemoveLayer 3]
     \<and> resultCount s2 = Some 1)"
proof -
  have h: "fresh_ids initMap"
    by (simp add: fresh_ids_def initMap_def)
  have s1: "displayProperties browser [house, flat] initMap =
     initMap\<lparr>layers := layers initMap @ new_markers browser 2 [house, flat],
             next_id := 4,
             propertyMarkers := new_markers browser 2 [house, flat],
             propertyList := new_cards browser [house, flat],
             resultCount := Some 2\<rparr>"
    unfolding displayProperties_eq [OF h] by (simp add: initMap_def)
  show ?thesis
    using h displayProperties_replaces [OF h, of browser "[house, flat]" "[flat]"]
    unfolding s1 by (simp add: Let_def initMap_def)
qed


text \<open>
  Claim C2. The marker that \<open>addPropertyToMap\<close> makes for a property has an icon whose
  size depends on the price alone: 50 by 50 when the price is above 200000, 40 by 40
  otherwise; its label is \<open>N$\<close> followed by the price as \<open>toLocaleString\<close> prints it.
  Rendering a single property puts exactly one new marker on the map and in the
  collection; at the price 250000 it has the large size.
\<close>

theorem marker_tier_and_label:
  assumes "fresh_ids s"
  shows "let m = property_marker h (next_id s) p in
       propertyMarkers (addPropertyToMap h p s) = propertyMarkers s @ [m]
     \<and> layers (addPropertyToMap h p s) = layers s @ [m]
     \<and> getLatLng m = Some (lat p, lng p)
     \<and> marker_icon m =
         Some \<lparr>className = ''price-marker'',
               html = ''N$'' @ toLocaleString h (price p),
               iconSize = (if 200000 < price p then (50, 50) else (40, 40)),
               iconAnchor = None\<rparr>
     \<and> propertyMarkers (displayProperties h [p] s) = [m]
     \<and> filter (\<lambda>x. layer_id x \<notin> layer_id ` set (layers s)) (layers (displayProperties h [p] s)) = [m]
     \<and> (price p = 250000 \<longrightarrow>
          marker_icon m =
            Some \<lparr>className = ''price-marker'',
                  html = ''N$'' @ toLocaleString h 250000,
                  iconSize = (50, 50), iconAnchor = None\<rparr>)"
proof -
  have n: "\<forall>x \<in> set (layers s). layer_id x \<noteq> next_id s"
    using assms by (auto simp: fresh_ids_def)
  have "filter (\<lambda>x. layer_id x \<notin> layer_id ` set (layers s))
          (filter (\<lambda>x. layer_id x \<notin> layer_id ` set (propertyMarkers s)) (layers s)) = []"
    by (auto simp: filter_empty_conv)
  moreover have "next_id s \<notin> layer_id ` set (layers s)"
    using n by auto
  ultimately show ?thesis
    unfolding Let_def displayProperties_eq [OF assms] addPropertyToMap_eq [OF assms]
    by (simp add: property_marker_def priceMarker_def markerSize_def)
qed

theorem marker_tier_and_label_witness:
  "fresh_ids initMap \<and>
   propertyMarkers (displayProperties browser [house] initMap) =
     [Marker 2 (-22.56, 17.08)
        (Some \<lparr>className = ''price-marker'', html = ''N$250,000'', iconSize = (50, 50), iconAnchor = None\<rparr>)
        (Some (PropertyPopup house))] \<and>
   marker_icon (property_marker browser 2 flat) =
     Some \<lparr>className = ''price-marker'', html = ''N$200,000'', iconSize = (40, 40), iconAnchor = None\<rparr>"
proof -
  have h: "fresh_ids initMap"
    by (simp add: fresh_ids_def initMap_def)
  have l: "toLocaleString browser 250000 = ''250,000''" "toLocaleString browser 200000 = ''200,000''"
    by (simp_all add: browser_simps)
  show ?thesis
    using h marker_tier_and_label [OF h, of browser house] marker_tier_and_label [OF h, of browser flat] l
    by (simp add: Let_def initMap_def house_def flat_def property_marker_def)
qed

subsection \<open>Price estimate: validation\<close>

lemma guard_is_not_strictly_positive:
  "(isNaN a \<or> le_zero a) = (\<not> strictly_positive a)"
  by (cases a) auto

lemma fetches_append [simp]: "fetches (xs @ ys) = fetches xs @ fetches ys"
  by (induction xs rule: fetches.induct) simp_all

text \<open>
  Claim C4. When the property type or the location is empty, or the parsed area is not a
  strictly positive number (it is \<open>NaN\<close>, zero or negative), \<open>calculatePriceEstimate\<close>
  shows the validation message and returns: the only call it makes is the alert, and
  the log holds no request it did not hold before.
\<close>

theorem estimate_validation_blocks_request:
  assumes "est_property_type f = [] \<or> est_location f = [] \<or>
           \<not> strictly_positive (parseFloat h (est_area f))"
  shows "calculatePriceEstimate h f s =
           s\<lparr>calls := calls s @ [Alert ''Please fill in all required fields.'']\<rparr>
       \<and> fetches (calls (calculatePriceEstimate h f s)) = fetches (calls s)"
proof -
  have "est_property_type f = [] \<or> est_location f = [] \<or>
        isNaN (parseFloat h (est_area f)) \<or> le_zero (parseFloat h (est_area f))"
    using assms by (simp add: guard_is_not_strictly_positive)
  then have "calculatePriceEstimate h f s =
           s\<lparr>calls := calls s @ [Alert ''Please fill in all required fields.'']\<rparr>"
    unfolding calculatePriceEstimate_def Let_def log_call_def by presburger
  then show ?thesis by simp
qed

theorem estimate_validation_blocks_request_witness:
  "\<not> strictly_positive (parseFloat browser (est_area zero_area_form)) \<and>
   calls (calculatePriceEstimate browser zero_area_form initMap) =
     [Alert ''Please fill in all required fields.''] \<and>
   fetches (calls (calculatePriceEstimate browser zero_area_form initMap)) = [] \<and>
   calls (calculatePriceEstimate browser (filled_form\<lparr>est_location := []\<rparr>) initMap) =
     [Alert ''Please fill in all required fields.''] \<and>
   calls (calculatePriceEstimate browser (filled_form\<lparr>est_area := ''abc''\<rparr>) initMap) =
     [Alert ''Please fill in all required fields.'']"
proof -
  have a: "\<not> strictly_positive (parseFloat browser (est_area zero_area_form))"
    by (simp add: zero_area_form_def filled_form_def browser_simps)
  have b: "est_location (filled_form\<lparr>est_location := []\<rparr>) = []"
    by simp
  have c: "\<not> strictly_positive (parseFloat browser (est_area (filled_form\<lparr>est_area := ''abc''\<rparr>)))"
    by (simp add: browser_simps)
  show ?thesis
    using a estimate_validation_blocks_request [of zero_area_form browser initMap]
      estimate_validation_blocks_request [of "filled_form\<lparr>est_location := []\<rparr>" browser initMap]
      estimate_validation_blocks_request [of "filled_form\<lparr>est_area := ''abc''\<rparr>" browser initMap]
      b c
    by (simp add: initMap_def)
qed

subsection \<open>Location search: the failure message\<close>

text \<open>
  Claim C6. On a geocode response with \<open>success: false\<close>, \<open>searchLocation\<close> alerts the
  text of the \<open>error\<close> field when the response has one and it is not empty, and
  \<open>Location not found\<close> otherwise; nothing else changes. For the error \<open>Not found\<close>
  the message is \<open>Not found\<close>.
\<close>

theorem geocode_failure_message:
  assumes "\<not> g_success d"
  shows "searchLocation_then (Resolved d) s =
           s\<lparr>calls := calls s @
               [Alert (case g_error d of
                         None \<Rightarrow> ''Location not found''
                       | Some m \<Rightarrow> if m = [] then ''Location not found'' else m)]\<rparr>
       \<and> (g_error d = Some ''Not found'' \<longrightarrow>
            calls (searchLocation_then (Resolved d) s) = calls s @ [Alert ''Not found''])"
  using assms by (simp add: log_call_def error_or_default_def)

theorem geocode_failure_message_witness:
  "\<not> g_success not_found \<and>
   calls (searchLocation_then (Resolved not_found) initMap) = [Alert ''Not found''] \<and>
   calls (searchLocation_then (Resolved no_reason) initMap) = [Alert ''Location not found''] \<and>
   display (searchLocation_then (Resolved not_found) initMap) = display initMap"
proof -
  have a: "\<not> g_success not_found" "\<not> g_success no_reason"
    by (simp_all add: not_found_def no_reason_def)
  show ?thesis
    using a geocode_failure_message [OF a(1), of initMap] geocode_failure_message [OF a(2), of initMap]
    by (simp add: not_found_def no_reason_def initMap_def display_def)
qed

subsection \<open>Routes: the line and its summary\<close>

lemma showRoute_then_eq:
  assumes "r_success rd" and "fresh_ids s"
  shows "showRoute_then h (Resolved rd) s =
     s\<lparr>layers := layers s @ [Polyline (next_id s) (route_points rd)],
       map_view := FitBounds (route_points rd) (50, 50),
       popup := Some \<lparr>anchor = route_points rd ! (length (route_points rd) div 2),
                      shown = Html (route_message h rd), source = None\<rparr>,
       next_id := Suc (next_id s),
       currentRouteLayer := Some (Polyline (next_id s) (route_points rd))\<rparr>"
proof -
  have "next_id s \<notin> layer_id ` set (layers s)"
    using assms(2) by (auto simp: fresh_ids_def)
  then show ?thesis
    using assms(1) by (simp add: fresh_def addTo_def on_map_def openOn_def Let_def)
qed

text \<open>
  Claim C5. On a successful route response the line drawn has the start, then the
  waypoints in the order of the response, then the end: \<open>n\<close> points for \<open>n - 2\<close>
  waypoints, four points for two. The summary popup is anchored at the point of index
  \<open>n div 2\<close>, which is in range (index 2, the second waypoint, for four points), and its
  text shows the duration rounded to the nearest whole minute.
\<close>

theorem route_line_and_summary:
  assumes "r_success rd" and "fresh_ids s"
  shows "let s' = showRoute_then h (Resolved rd) s;
             points = r_start rd # waypoints rd @ [r_end rd];
             n = length points
         in n = length (waypoints rd) + 2
          \<and> currentRouteLayer s' = Some (Polyline (next_id s) points)
          \<and> layers s' = layers s @ [Polyline (next_id s) points]
          \<and> map_view s' = FitBounds points (50, 50)
          \<and> n div 2 < n
          \<and> popup s' =
              Some \<lparr>anchor = points ! (n div 2),
                    shown = Html (''Distance: '' @ toString h (distance rd) @
                                  '' km, Duration: '' @
                                  toString h (of_int (Math_round (duration rd))) @ '' minutes''),
                    source = None\<rparr>
          \<and> \<bar>real_of_int (Math_round (duration rd)) - duration rd\<bar> \<le> 1 / 2
          \<and> (length (waypoints rd) = 2 \<longrightarrow> n = 4 \<and> points ! (n div 2) = waypoints rd ! 1)"
proof -
  have r: "\<bar>real_of_int (Math_round (duration rd)) - duration rd\<bar> \<le> 1 / 2"
    unfolding Math_round_def by linarith
  have w: "length (waypoints rd) = 2 \<longrightarrow>
        (r_start rd # waypoints rd @ [r_end rd]) ! 2 = waypoints rd ! 1"
    by (simp add: nth_append)
  show ?thesis
    unfolding Let_def showRoute_then_eq [OF assms]
    using r w by (simp add: route_points_def route_message_def)
qed

theorem route_line_and_summary_witness:
  "r_success route_a \<and> fresh_ids initMap \<and>
   layers (showRoute_then browser (Resolved route_a) initMap) =
     layers initMap @
     [Polyline 2 [(-22.56, 17.08), (-22.562, 17.083), (-22.566, 17.087), (-22.57, 17.09)]] \<and>
   popup (showRoute_then browser (Resolved route_a) initMap) =
     Some \<lparr>anchor = (-22.566, 17.087),
           shown = Html ''Distance: 8 km, Duration: 13 minutes'',
           source = None\<rparr>"
proof -
  have a: "r_success route_a"
    by (simp add: route_a_def)
  have h: "fresh_ids initMap"
    by (simp add: fresh_ids_def initMap_def)
  have m: "Math_round (duration route_a) = 13"
    by (simp add: Math_round_def route_a_def)
  have t: "toString browser 8 = ''8''" "toString browser 13 = ''13''"
    by (simp_all add: browser_simps)
  show ?thesis
    using a h route_line_and_summary [OF a h, of browser] m t
    by (simp add: Let_def route_a_def initMap_def)
qed

subsection \<open>Routes: a request that fails\<close>

lemma showRoute_eq:
  "showRoute a b c d s =
     (case currentRouteLayer s of
        None \<Rightarrow> s\<lparr>calls := calls s @ [Fetch (GetRoute a b c d)]\<rparr>
      | Some l \<Rightarrow>
          s\<lparr>layers := filter (\<lambda>x. layer_id x \<noteq> layer_id l) (layers s),
            popup := close_bound ({layer_id l} \<inter> layer_id ` set (layers s)) (popup s),
            calls := calls s @ [RemoveLayer (layer_id l), Fetch (GetRoute a b c d)]\<rparr>)"
  by (simp add: showRoute_def removeLayer_eq log_call_def split: option.splits)

lemma off_map_filter:
  "\<not> on_map l s \<Longrightarrow> filter (\<lambda>x. layer_id x \<noteq> layer_id l) (layers s) = layers s"
  unfolding on_map_def filter_id_conv by (metis imageI)

lemma on_map_filter:
  "on_map l s \<Longrightarrow> filter (\<lambda>x. layer_id x \<noteq> layer_id l) (layers s) \<noteq> layers s"
  unfolding on_map_def filter_id_conv by auto

lemma not_on_map_after_filter:
  "\<not> on_map l (s\<lparr>layers := filter (\<lambda>x. layer_id x \<noteq> layer_id l) (layers s)\<rparr>)"
  by (auto simp: on_map_def)

text \<open>
  Claim C7, as the code has it. The continuation of a failed route request changes
  nothing on the map: a rejected request is logged on the console and alerts nothing,
  a \<open>success: false\<close> response does nothing at all. The display after the failure is
  the one the synchronous part of \<open>showRoute\<close> left, which is the display before the
  call without the layer \<open>currentRouteLayer\<close> referred to; it is the display before
  the call exactly when that layer was not on the map.
\<close>

theorem route_failure_keeps_cleared_display:
  "let s1 = showRoute a b c d s;
       s2 = showRoute_then h (Rejected e) s1
   in display s2 = display s1
    \<and> calls s2 = calls s1 @ [ConsoleError (''Error calculating route: '' @ e)]
    \<and> (\<not> r_success rd \<longrightarrow> showRoute_then h (Resolved rd) s1 = s1)
    \<and> layers s1 =
        filter (\<lambda>x. \<forall>l \<in> set_option (currentRouteLayer s). layer_id x \<noteq> layer_id l) (layers s)
    \<and> (display s1 = display s \<longleftrightarrow> (\<forall>l \<in> set_option (currentRouteLayer s). \<not> on_map l s))"
proof (cases "currentRouteLayer s")
  case None
  then show ?thesis
    by (simp add: Let_def showRoute_eq display_def log_call_def)
next
  case (Some l)
  show ?thesis
  proof (cases "on_map l s")
    case True
    then show ?thesis
      using Some on_map_filter [OF True]
      by (simp add: Let_def showRoute_eq display_def log_call_def)
  next
    case False
    then have "{layer_id l} \<inter> layer_id ` set (layers s) = {}"
      by (auto simp: on_map_def)
    then show ?thesis
      using Some False off_map_filter [OF False]
      by (simp add: Let_def showRoute_eq display_def log_call_def)
  qed
qed

theorem route_failure_keeps_cleared_display_witness:
  "(let s1 = showRoute (-22.56) 17.08 (-22.54) 17.06 route_shown;
        s2 = showRoute_then browser (Rejected ''Failed to fetch'') s1
    in layers s2 = layers initMap
     \<and> display s2 = display s1
     \<and> calls s2 = [RemoveLayer 2, Fetch (GetRoute (-22.56) 17.08 (-22.54) 17.06),
                   ConsoleError ''Error calculating route: Failed to fetch''])
   \<and> display (showRoute_then browser (Rejected ''Failed to fetch'') (showRoute 0 0 1 1 initMap))
       = display initMap"
proof -
  define s1 where "s1 = showRoute (-22.56) 17.08 (-22.54) 17.06 route_shown"
  define s2 where "s2 = showRoute_then browser (Rejected ''Failed to fetch'') s1"
  define t1 where "t1 = showRoute 0 0 1 1 initMap"
  define t2 where "t2 = showRoute_then browser (Rejected ''Failed to fetch'') t1"
  have c: "currentRouteLayer route_shown = Some (Polyline 2 (route_points route_a))"
    "layers route_shown = layers initMap @ [Polyline 2 (route_points route_a)]"
    "calls route_shown = []"
    by (simp_all add: route_shown_def route_a_def initMap_def fresh_def addTo_def on_map_def
        openOn_def Let_def)
  have n: "currentRouteLayer initMap = None"
    by (simp add: initMap_def)
  note shown = route_failure_keeps_cleared_display
      [of "-22.56" "17.08" "-22.54" "17.06" route_shown browser "''Failed to fetch''" route_a,
       unfolded Let_def, folded s1_def, folded s2_def]
  note fresh = route_failure_keeps_cleared_display
      [of 0 0 1 1 initMap browser "''Failed to fetch''" route_a,
       unfolded Let_def, folded t1_def, folded t2_def]
  have d: "display s2 = display s1"
    using shown by blast
  have l1: "layers s1 = layers initMap"
  proof -
    have "layers s1 =
        filter (\<lambda>x. \<forall>l \<in> set_option (currentRouteLayer route_shown). layer_id x \<noteq> layer_id l)
          (layers route_shown)"
      using shown by blast
    then show ?thesis
      unfolding c by (simp add: initMap_def)
  qed
  have l2: "layers s2 = layers initMap"
    using d l1 by (simp add: display_def)
  have c1: "calls s1 = [RemoveLayer 2, Fetch (GetRoute (-22.56) 17.08 (-22.54) 17.06)]"
    unfolding s1_def by (simp add: showRoute_eq c)
  have "calls s2 = calls s1 @ [ConsoleError (''Error calculating route: '' @ ''Failed to fetch'')]"
    using shown by blast
  then have c2: "calls s2 = [RemoveLayer 2, Fetch (GetRoute (-22.56) 17.08 (-22.54) 17.06),
                   ConsoleError ''Error calculating route: Failed to fetch'']"
    unfolding c1 by simp
  have "display t2 = display t1"
    using fresh by blast
  moreover have "display t1 = display initMap"
  proof -
    have "(display t1 = display initMap) =
          (\<forall>l \<in> set_option (currentRouteLayer initMap). \<not> on_map l initMap)"
      using fresh by blast
    then show ?thesis
      unfolding n by simp
  qed
  ultimately have e: "display t2 = display initMap"
    by simp
  show ?thesis
    using l2 d c2 e unfolding Let_def s1_def s2_def t1_def t2_def by blast
qed

text \<open>The claim as the specification states it fails where a route is on the map: the
  failed request leaves the map without it.\<close>

theorem route_failure_changes_display_counterexample:
  "display (showRoute_then browser (Rejected ''Failed to fetch'')
              (showRoute (-22.56) 17.08 (-22.54) 17.06 route_shown))
   \<noteq> display route_shown"
proof -
  have c: "currentRouteLayer route_shown = Some (Polyline 2 (route_points route_a))"
    "layers route_shown = layers initMap @ [Polyline 2 (route_points route_a)]"
    by (simp_all add: route_shown_def route_a_def initMap_def fresh_def addTo_def on_map_def
        openOn_def Let_def)
  show ?thesis
    by (simp add: display_def showRoute_eq c log_call_def initMap_def)
qed

text \<open>
  Claim C9. \<open>showRoute\<close> never resets \<open>currentRouteLayer\<close>. When it referred to a layer
  and the request fails, by rejection or with \<open>success: false\<close>, it still refers to
  that layer, which is no longer on the map; the next \<open>showRoute\<close> calls \<open>removeLayer\<close>
  on it again, which changes nothing on the map.
\<close>

theorem stale_route_layer_removed_again:
  assumes "currentRouteLayer s = Some l" and "failed r"
  shows "let s1 = showRoute a b c d s;
             s2 = showRoute_then h r s1;
             s3 = showRoute a' b' c' d' s2
         in calls s1 = calls s @ [RemoveLayer (layer_id l), Fetch (GetRoute a b c d)]
          \<and> currentRouteLayer s1 = Some l \<and> \<not> on_map l s1
          \<and> currentRouteLayer s2 = Some l \<and> \<not> on_map l s2
          \<and> calls s3 = calls s2 @ [RemoveLayer (layer_id l), Fetch (GetRoute a' b' c' d')]
          \<and> display s3 = display s2"
proof -
  define s1 where "s1 = showRoute a b c d s"
  define s2 where "s2 = showRoute_then h r s1"
  define s3 where "s3 = showRoute a' b' c' d' s2"
  have s1: "calls s1 = calls s @ [RemoveLayer (layer_id l), Fetch (GetRoute a b c d)]"
    "currentRouteLayer s1 = Some l" "\<not> on_map l s1"
    unfolding s1_def using assms(1) by (auto simp: showRoute_eq on_map_def)
  have s2: "currentRouteLayer s2 = currentRouteLayer s1" "layers s2 = layers s1"
    unfolding s2_def using assms(2) by (cases r; simp add: log_call_def)+
  then have o2: "\<not> on_map l s2"
    using s1(3) by (simp add: on_map_def)
  then have e: "{layer_id l} \<inter> layer_id ` set (layers s2) = {}"
    by (auto simp: on_map_def)
  have s3: "calls s3 = calls s2 @ [RemoveLayer (layer_id l), Fetch (GetRoute a' b' c' d')]"
    "display s3 = display s2"
    unfolding s3_def using s2(1) s1(2) off_map_filter [OF o2] e
    by (simp_all add: showRoute_eq display_def)
  show ?thesis
    using s1 s2 o2 s3 unfolding Let_def s1_def s2_def s3_def by simp
qed

theorem stale_route_layer_removed_again_witness:
  "currentRouteLayer route_shown = Some (Polyline 2 (route_points route_a)) \<and>
   failed (Rejected ''Failed to fetch'') \<and>
   calls (showRoute 0 0 2 2
           (showRoute_then browser (Rejected ''Failed to fetch'') (showRoute 0 0 1 1 route_shown)))
     = [RemoveLayer 2, Fetch (GetRoute 0 0 1 1),
        ConsoleError ''Error calculating route: Failed to fetch'',
        RemoveLayer 2, Fetch (GetRoute 0 0 2 2)] \<and>
   calls (showRoute 0 0 2 2
           (showRoute_then browser (Resolved (route_a\<lparr>r_success := False\<rparr>))
             (showRoute 0 0 1 1 route_shown)))
     = [RemoveLayer 2, Fetch (GetRoute 0 0 1 1), RemoveLayer 2, Fetch (GetRoute 0 0 2 2)]"
proof -
  define s1 where "s1 = showRoute 0 0 1 1 route_shown"
  define s2 where "s2 = showRoute_then browser (Rejected ''Failed to fetch'') s1"
  define t2 where "t2 = showRoute_then browser (Resolved (route_a\<lparr>r_success := False\<rparr>)) s1"
  have c: "currentRouteLayer route_shown = Some (Polyline 2 (route_points route_a))"
    and c0: "calls route_shown = []"
    by (simp_all add: route_shown_def route_a_def initMap_def fresh_def addTo_def on_map_def
        openOn_def Let_def)
  have f: "failed (Rejected ''Failed to fetch'')"
    and g: "failed (Resolved (route_a\<lparr>r_success := False\<rparr>))"
    by simp_all
  note rej = stale_route_layer_removed_again [OF c f, of 0 0 1 1 browser 0 0 2 2,
      unfolded Let_def, folded s1_def, folded s2_def]
  note unsuccessful = stale_route_layer_removed_again [OF c g, of 0 0 1 1 browser 0 0 2 2,
      unfolded Let_def, folded s1_def, folded t2_def]
  have a1: "calls s1 = [RemoveLayer 2, Fetch (GetRoute 0 0 1 1)]"
    using rej c0 by simp
  have a2: "calls s2 = calls s1 @ [ConsoleError ''Error calculating route: Failed to fetch'']"
    unfolding s2_def by (simp add: log_call_def)
  have b2: "calls t2 = calls s1"
    unfolding t2_def by simp
  have a3: "calls (showRoute 0 0 2 2 s2) = calls s2 @ [RemoveLayer 2, Fetch (GetRoute 0 0 2 2)]"
    using rej by simp
  have b3: "calls (showRoute 0 0 2 2 t2) = calls t2 @ [RemoveLayer 2, Fetch (GetRoute 0 0 2 2)]"
    using unsuccessful by simp
  show ?thesis
    using c f unfolding a3 b3 a2 b2 a1 s1_def [symmetric] s2_def [symmetric] t2_def [symmetric]
    by simp
qed

subsection \<open>Price estimate: the fields that are not validated\<close>

lemma calculatePriceEstimate_valid:
  assumes "est_property_type f \<noteq> []" and "est_location f \<noteq> []"
    and "strictly_positive (parseFloat h (est_area f))"
  shows "calculatePriceEstimate h f s =
     s\<lparr>calls := calls s @ [Fetch (PostEstimate (JSON_stringify (estimateData h f)))]\<rparr>"
proof -
  have "\<not> (isNaN (parseFloat h (est_area f)) \<or> le_zero (parseFloat h (est_area f)))"
    using assms(3) by (simp add: guard_is_not_strictly_positive)
  then show ?thesis
    using assms(1,2) by (simp add: calculatePriceEstimate_def Let_def log_call_def)
qed

text \<open>
  Claim C10, as the code has it. \<open>calculatePriceEstimate\<close> checks the property type,
  the location and the area only. Whatever the bedrooms, bathrooms and age fields
  hold, the request is sent; the three values go into \<open>estimateData\<close> as \<open>parseInt\<close>
  returns them, so as \<open>NaN\<close> for a field it cannot read; and \<open>JSON.stringify\<close>
  writes each \<open>NaN\<close> into the body of the request as \<open>null\<close>.
\<close>

theorem unvalidated_fields_sent_as_null:
  assumes "est_property_type f \<noteq> []" and "est_location f \<noteq> []"
    and "strictly_positive (parseFloat h (est_area f))"
  shows "calls (calculatePriceEstimate h f s) =
           calls s @ [Fetch (PostEstimate (JSON_stringify (estimateData h f)))]
       \<and> map_of (estimateData h f) ''bedrooms'' = Some (VNum (parseInt h (est_bedrooms f)))
       \<and> map_of (estimateData h f) ''bathrooms'' = Some (VNum (parseInt h (est_bathrooms f)))
       \<and> map_of (estimateData h f) ''age'' = Some (VNum (parseInt h (est_age f)))
       \<and> (parseInt h (est_bedrooms f) = NaN \<longrightarrow>
            map_of (JSON_stringify (estimateData h f)) ''bedrooms'' = Some VNull)
       \<and> (parseInt h (est_bathrooms f) = NaN \<longrightarrow>
            map_of (JSON_stringify (estimateData h f)) ''bathrooms'' = Some VNull)
       \<and> (parseInt h (est_age f) = NaN \<longrightarrow>
            map_of (JSON_stringify (estimateData h f)) ''age'' = Some VNull)
       \<and> VNum NaN \<notin> snd ` set (JSON_stringify (estimateData h f))"
proof -
  have v: "json_value v \<noteq> VNum NaN" for v
    by (cases v rule: json_value.cases) simp_all
  have "VNum NaN \<notin> snd ` set (JSON_stringify (estimateData h f))"
    unfolding JSON_stringify_def using v by (auto simp: image_iff) metis
  then show ?thesis
    unfolding calculatePriceEstimate_valid [OF assms]
    by (simp add: estimateData_def JSON_stringify_def)
qed

theorem unvalidated_fields_sent_as_null_witness:
  "est_property_type blank_rooms_form \<noteq> [] \<and> est_location blank_rooms_form \<noteq> [] \<and>
   strictly_positive (parseFloat browser (est_area blank_rooms_form)) \<and>
   parseInt browser (est_bedrooms blank_rooms_form) = NaN \<and>
   parseInt browser (est_bathrooms blank_rooms_form) = NaN \<and>
   parseInt browser (est_age blank_rooms_form) = NaN \<and>
   map_of (estimateData browser blank_rooms_form) ''bedrooms'' = Some (VNum NaN) \<and>
   calls (calculatePriceEstimate browser blank_rooms_form initMap) =
     [Fetch (PostEstimate (JSON_stringify (estimateData browser blank_rooms_form)))] \<and>
   map_of (JSON_stringify (estimateData browser blank_rooms_form)) ''bedrooms'' = Some VNull \<and>
   map_of (JSON_stringify (estimateData browser blank_rooms_form)) ''bathrooms'' = Some VNull \<and>
   map_of (JSON_stringify (estimateData browser blank_rooms_form)) ''age'' = Some VNull"
proof -
  have a: "est_property_type blank_rooms_form \<noteq> []" "est_location blank_rooms_form \<noteq> []"
    by (simp_all add: blank_rooms_form_def filled_form_def)
  have b: "strictly_positive (parseFloat browser (est_area blank_rooms_form))"
    by (simp add: blank_rooms_form_def filled_form_def browser_simps)
  have n: "parseInt browser (est_bedrooms blank_rooms_form) = NaN"
    "parseInt browser (est_bathrooms blank_rooms_form) = NaN"
    "parseInt browser (est_age blank_rooms_form) = NaN"
    by (simp_all add: blank_rooms_form_def filled_form_def browser_simps)
  have i: "calls initMap = []"
    by (simp add: initMap_def)
  note t = unvalidated_fields_sent_as_null [OF a b, of initMap]
  show ?thesis
    using a b n t unfolding i by simp
qed

text \<open>The claim as stated fails: with the three fields empty or not numeric the body
  that is sent carries \<open>null\<close> for them, not \<open>NaN\<close>.\<close>

theorem nan_in_request_body_counterexample:
  "calls (calculatePriceEstimate browser blank_rooms_form initMap) =
     [Fetch (PostEstimate
        [(''property_type'', VStr ''house''), (''location'', VStr ''Windhoek''),
         (''bedrooms'', VNull), (''bathrooms'', VNull), (''area'', VNum (Num 120.5)),
         (''age'', VNull), (''condition'', VStr ''good''), (''garage'', VBool True),
         (''pool'', VBool False), (''garden'', VBool True), (''security'', VBool False),
         (''aircon'', VBool False), (''furnished'', VBool False)])] \<and>
   map_of (JSON_stringify (estimateData browser blank_rooms_form)) ''bedrooms'' \<noteq> Some (VNum NaN)"
  by (simp add: calculatePriceEstimate_def estimateData_def JSON_stringify_def log_call_def
      blank_rooms_form_def filled_form_def initMap_def browser_simps)

subsection \<open>Identities stay fresh\<close>

lemma layer_id_with_popup [simp]: "layer_id (with_popup c l) = layer_id l"
  by (cases l) simp_all

lemma layer_id_with_latlng [simp]: "layer_id (with_latlng pos l) = layer_id l"
  by (cases l) simp_all

lemma map_other_ids:
  "\<forall>l \<in> set xs. layer_id l \<noteq> i \<Longrightarrow> map (\<lambda>l. if layer_id l = i then f l else l) xs = xs"
  by (induction xs) simp_all

lemma map_option_other_id:
  "\<forall>l \<in> set_option x. layer_id l \<noteq> i \<Longrightarrow>
   map_option (\<lambda>l. if layer_id l = i then f l else l) x = x"
  by (cases x) simp_all

lemma wf_initMap: "wf initMap"
  by (simp add: wf_def fresh_ids_def initMap_def)

lemma wf_fresh: "wf s \<Longrightarrow> fresh_ids s"
  by (simp add: wf_def)

lemma wf_displayProperties:
  assumes "wf s"
  shows "wf (displayProperties h ps s)"
proof -
  have f: "fresh_ids s"
    using assms by (rule wf_fresh)
  have new: "\<forall>l \<in> set (new_markers h (next_id s) ps).
      next_id s \<le> layer_id l \<and> layer_id l < next_id s + length ps"
  proof
    fix l assume "l \<in> set (new_markers h (next_id s) ps)"
    then have "layer_id l \<in> set (map layer_id (new_markers h (next_id s) ps))"
      by (simp del: ids_new_markers)
    then show "next_id s \<le> layer_id l \<and> layer_id l < next_id s + length ps"
      by simp
  qed
  have old: "\<forall>l \<in> set (layers s). layer_id l < next_id s"
    using f by (simp add: fresh_ids_def)
  have d: "distinct (map layer_id (filter (\<lambda>x. layer_id x \<notin> layer_id ` set (propertyMarkers s)) (layers s)))"
    using assms by (simp add: wf_def distinct_map_filter)
  have disj: "layer_id ` set (filter (\<lambda>x. layer_id x \<notin> layer_id ` set (propertyMarkers s)) (layers s))
      \<inter> layer_id ` set (new_markers h (next_id s) ps) = {}"
    using old new by fastforce
  show ?thesis
    unfolding displayProperties_eq [OF f] wf_def fresh_ids_def
    using assms new old d disj by (auto simp: wf_def)
qed

lemma wf_showRoute:
  assumes "wf s"
  shows "wf (showRoute a b c d s)"
  using assms unfolding showRoute_eq wf_def fresh_ids_def
  by (auto simp: distinct_map_filter split: option.splits)

lemma wf_showRoute_then:
  assumes "wf s"
  shows "wf (showRoute_then h r s)"
proof (cases r)
  case (Resolved rd)
  show ?thesis
  proof (cases "r_success rd")
    case True
    have "\<forall>l \<in> set (layers s). layer_id l \<noteq> next_id s"
      using assms by (auto simp: wf_def fresh_ids_def)
    then show ?thesis
      using assms unfolding Resolved showRoute_then_eq [OF True wf_fresh [OF assms]] wf_def fresh_ids_def
      by (auto simp: less_Suc_eq)
  next
    case False
    then show ?thesis using assms Resolved by simp
  qed
next
  case (Rejected e)
  then show ?thesis using assms by (simp add: wf_def fresh_ids_def log_call_def)
qed

lemma searchLocation_then_eq:
  assumes "g_success d" and "wf s"
  shows "searchLocation_then (Resolved d) s =
     s\<lparr>layers := layers s @
          [Marker (next_id s) (g_lat d, g_lng d) None (Some (Html (formatted_address d)))],
       map_view := SetView (g_lat d, g_lng d) 14,
       popup := Some \<lparr>anchor = (g_lat d, g_lng d), shown = Html (formatted_address d),
                      source = Some (next_id s)\<rparr>,
       next_id := Suc (next_id s)\<rparr>"
proof -
  let ?n = "next_id s"
  let ?g = "\<lambda>l. if layer_id l = ?n then with_popup (Html (formatted_address d)) l else l"
  have 1: "\<forall>l \<in> set (layers s). layer_id l \<noteq> ?n"
    and 2: "\<forall>l \<in> set (propertyMarkers s). layer_id l \<noteq> ?n"
    and 3: "\<forall>l \<in> set_option (currentRouteLayer s). layer_id l \<noteq> ?n"
    and 4: "\<forall>l \<in> set_option (userLocationMarker s). layer_id l \<noteq> ?n"
    using assms(2) by (auto simp: wf_def fresh_ids_def)
  have n: "?n \<notin> layer_id ` set (layers s)"
    using 1 by auto
  show ?thesis
    using assms(1) n
    by (simp add: setView_def fresh_def addTo_def on_map_def bindPopup_def update_object_def
        openOn_def Let_def map_other_ids [OF 1] map_other_ids [OF 2]
        map_option_other_id [OF 3] map_option_other_id [OF 4])
qed

lemma wf_searchLocation_then:
  assumes "wf s"
  shows "wf (searchLocation_then r s)"
proof (cases r)
  case (Resolved d)
  show ?thesis
  proof (cases "g_success d")
    case True
    have "\<forall>l \<in> set (layers s). layer_id l \<noteq> next_id s"
      using assms by (auto simp: wf_def fresh_ids_def)
    then show ?thesis
      using assms unfolding Resolved searchLocation_then_eq [OF True assms] wf_def fresh_ids_def
      by (auto simp: less_Suc_eq)
  next
    case False
    then show ?thesis using assms Resolved by (simp add: wf_def fresh_ids_def log_call_def)
  qed
next
  case (Rejected e)
  then show ?thesis using assms by (simp add: wf_def fresh_ids_def log_call_def)
qed


lemma wf_log_call [simp]: "wf (log_call c s) = wf s"
  by (simp add: wf_def fresh_ids_def log_call_def)

lemma wf_setView [simp]: "wf (setView c z s) = wf s"
  by (simp add: wf_def fresh_ids_def setView_def)

lemma openPopup_eq: "openPopup m s = s \<or> (\<exists>p. openPopup m s = s\<lparr>popup := Some p\<rparr>)"
  by (cases "(m, s)" rule: openPopup.cases) (auto simp: openOn_def)

lemma open_matching_eq: "\<exists>q. open_matching p ms s = s\<lparr>popup := q\<rparr>"
proof (induction ms arbitrary: s)
  case Nil
  have "s = s\<lparr>popup := popup s\<rparr>" by simp
  then show ?case by (metis open_matching.simps(1))
next
  case (Cons m ms)
  let ?t = "if getLatLng m = Some (lat p, lng p) then openPopup m s else s"
  obtain q' where t: "?t = s\<lparr>popup := q'\<rparr>"
  proof (cases "?t = s")
    case True
    have "s = s\<lparr>popup := popup s\<rparr>" by simp
    with True that show ?thesis by metis
  next
    case False
    then have "\<exists>p'. ?t = s\<lparr>popup := Some p'\<rparr>"
      using openPopup_eq [of m s] by (auto split: if_splits)
    with that show ?thesis by blast
  qed
  obtain q where "open_matching p ms ?t = ?t\<lparr>popup := q\<rparr>"
    using Cons.IH by blast
  then have "open_matching p (m # ms) s = s\<lparr>popup := q\<rparr>"
    unfolding open_matching.simps t by simp
  then show ?case by blast
qed

lemma card_click_eq: "\<exists>q. card_click p s = s\<lparr>map_view := SetView (lat p, lng p) 16, popup := q\<rparr>"
proof -
  obtain q where "open_matching p (propertyMarkers s) (setView (lat p, lng p) 16 s)
      = (setView (lat p, lng p) 16 s)\<lparr>popup := q\<rparr>"
    using open_matching_eq by blast
  then show ?thesis
    unfolding card_click_def setView_def by auto
qed

lemma wf_card_click:
  assumes "wf s"
  shows "wf (card_click p s)"
proof -
  obtain q where "card_click p s = s\<lparr>map_view := SetView (lat p, lng p) 16, popup := q\<rparr>"
    using card_click_eq by blast
  then show ?thesis
    using assms by (simp add: wf_def fresh_ids_def)
qed

lemma wf_setLatLng:
  assumes "wf s"
  shows "wf (setLatLng i pos s)"
proof -
  have m: "layer_id \<circ> (\<lambda>l. if layer_id l = i then with_latlng pos l else l) = layer_id"
    by (auto simp: fun_eq_iff)
  show ?thesis
    using assms unfolding setLatLng_def update_object_def Let_def wf_def fresh_ids_def
    by (cases "currentRouteLayer s"; cases "userLocationMarker s") (auto simp: m)
qed

lemma wf_new_user_marker:
  assumes "wf s"
  shows "wf ((addTo (Marker (next_id s) pos ic c) (s\<lparr>next_id := Suc (next_id s)\<rparr>))
             \<lparr>userLocationMarker := Some (Marker (next_id s) pos ic c)\<rparr>)"
proof -
  have "\<forall>l \<in> set (layers s). layer_id l \<noteq> next_id s"
    using assms by (auto simp: wf_def fresh_ids_def)
  then show ?thesis
    using assms unfolding wf_def fresh_ids_def addTo_def on_map_def
    by (auto simp: less_Suc_eq)
qed

lemma wf_getUserLocation:
  assumes "wf s"
  shows "wf (getUserLocation g callback s)"
proof (cases g)
  case Unsupported
  then show ?thesis using assms by simp
next
  case (Denied e)
  then show ?thesis using assms by simp
next
  case (Position la lo)
  let ?s1 = "case userLocationMarker s of
                  Some m \<Rightarrow> setLatLng (layer_id m) (la, lo) s
                | None \<Rightarrow>
                    (let (i, t) = fresh s;
                         m = Marker i (la, lo) (Some user_icon) None
                     in (addTo m t)\<lparr>userLocationMarker := Some m\<rparr>)"
  have "wf ?s1"
    using assms wf_setLatLng [OF assms] wf_new_user_marker [OF assms]
    by (simp add: fresh_def Let_def split: option.splits)
  then have "wf (setView (la, lo) 15 ?s1)"
    by simp
  then show ?thesis
    unfolding Position getUserLocation.simps Let_def
    by (cases callback) (simp_all add: wf_showRoute)
qed

lemma wf_step:
  assumes "wf s"
  shows "wf (step h e s)"
proof (cases e)
  case PageLoaded
  then show ?thesis using assms by (simp add: loadProperties_def)
next
  case (PropertiesReturned r)
  then show ?thesis using assms by (cases r) (simp_all add: wf_displayProperties)
next
  case (SearchSubmitted f)
  then show ?thesis using assms by (simp add: searchProperties_def)
next
  case (SearchReturned location field r)
  then show ?thesis
    using assms by (cases r) (simp_all add: wf_displayProperties searchLocation_def Let_def)
next
  case (LocationSearch field)
  then show ?thesis using assms by (simp add: searchLocation_def Let_def)
next
  case (GeocodeReturned r)
  then show ?thesis using assms by (simp add: wf_searchLocation_then)
next
  case (RouteButton dest)
  then show ?thesis
    using assms by (simp add: route_button_def wf_showRoute split: option.splits)
next
  case (Geolocated g callback)
  then show ?thesis using assms by (simp add: wf_getUserLocation)
next
  case (RouteReturned r)
  then show ?thesis using assms by (simp add: wf_showRoute_then)
next
  case (EstimateClicked f)
  then show ?thesis using assms by (simp add: calculatePriceEstimate_def Let_def)
next
  case (EstimateReturned r)
  then show ?thesis using assms by (cases r) (simp_all add: wf_def fresh_ids_def log_call_def)
next
  case (CardClicked p)
  then show ?thesis using assms by (simp add: wf_card_click)
qed

lemma wf_run: "wf s \<Longrightarrow> wf (run h es s)"
  by (induction es arbitrary: s) (simp_all add: wf_step)

subsection \<open>A layer no global refers to stays on the map\<close>

lemma held_same_core:
  assumes "held l s"
    and "layers t = layers s" and "next_id t = next_id s"
    and "propertyMarkers t = propertyMarkers s"
    and "currentRouteLayer t = currentRouteLayer s"
    and "userLocationMarker t = userLocationMarker s"
  shows "held l t"
  using assms by (simp add: held_def wf_def fresh_ids_def unowned_def)

lemma held_log_call [simp]: "held l (log_call c s) = held l s"
  by (simp add: held_def unowned_def log_call_def wf_def fresh_ids_def)

lemma held_setView [simp]: "held l (setView c z s) = held l s"
  by (simp add: held_def unowned_def setView_def wf_def fresh_ids_def)

lemma held_displayProperties:
  assumes "held l s"
  shows "held l (displayProperties h ps s)"
proof -
  have w: "wf s" and m: "l \<in> set (layers s)" and u: "unowned (layer_id l) s"
    using assms by (simp_all add: held_def)
  have f: "fresh_ids s"
    using w by (rule wf_fresh)
  have "layer_id l \<notin> set (map layer_id (new_markers h (next_id s) ps))"
    using u by (simp add: unowned_def)
  then have new: "layer_id l \<notin> layer_id ` set (new_markers h (next_id s) ps)"
    by (simp del: ids_new_markers)
  have "l \<in> set (layers (displayProperties h ps s))"
    using m u unfolding displayProperties_eq [OF f] by (simp add: unowned_def)
  moreover have "unowned (layer_id l) (displayProperties h ps s)"
    using u new unfolding displayProperties_eq [OF f] by (simp add: unowned_def)
  ultimately show ?thesis
    using wf_displayProperties [OF w] by (simp add: held_def)
qed

lemma held_showRoute:
  assumes "held l s"
  shows "held l (showRoute a b c d s)"
proof -
  have w: "wf s" and m: "l \<in> set (layers s)" and u: "unowned (layer_id l) s"
    using assms by (simp_all add: held_def)
  have "l \<in> set (layers (showRoute a b c d s))"
    using m u unfolding showRoute_eq by (auto simp: unowned_def split: option.splits)
  moreover have "unowned (layer_id l) (showRoute a b c d s)"
    using u unfolding showRoute_eq by (auto simp: unowned_def split: option.splits)
  ultimately show ?thesis
    using wf_showRoute [OF w] by (simp add: held_def)
qed

lemma held_showRoute_then:
  assumes "held l s"
  shows "held l (showRoute_then h r s)"
proof -
  have w: "wf s" and m: "l \<in> set (layers s)" and u: "unowned (layer_id l) s"
    using assms by (simp_all add: held_def)
  have "l \<in> set (layers (showRoute_then h r s)) \<and> unowned (layer_id l) (showRoute_then h r s)"
  proof (cases r)
    case (Resolved rd)
    show ?thesis
    proof (cases "r_success rd")
      case True
      show ?thesis
        using m u unfolding Resolved showRoute_then_eq [OF True wf_fresh [OF w]]
        by (simp add: unowned_def)
    next
      case False
      then show ?thesis using m u Resolved by simp
    qed
  next
    case (Rejected e)
    then show ?thesis using m u by (simp add: log_call_def unowned_def)
  qed
  then show ?thesis
    using wf_showRoute_then [OF w] by (simp add: held_def)
qed

lemma held_searchLocation_then:
  assumes "held l s"
  shows "held l (searchLocation_then r s)"
proof -
  have w: "wf s" and m: "l \<in> set (layers s)" and u: "unowned (layer_id l) s"
    using assms by (simp_all add: held_def)
  have "l \<in> set (layers (searchLocation_then r s)) \<and> unowned (layer_id l) (searchLocation_then r s)"
  proof (cases r)
    case (Resolved d)
    show ?thesis
    proof (cases "g_success d")
      case True
      show ?thesis
        using m u unfolding Resolved searchLocation_then_eq [OF True w]
        by (simp add: unowned_def)
    next
      case False
      then show ?thesis using m u Resolved by (simp add: log_call_def unowned_def)
    qed
  next
    case (Rejected e)
    then show ?thesis using m u by (simp add: log_call_def unowned_def)
  qed
  then show ?thesis
    using wf_searchLocation_then [OF w] by (simp add: held_def)
qed

lemma held_card_click:
  assumes "held l s"
  shows "held l (card_click p s)"
proof -
  obtain q where "card_click p s = s\<lparr>map_view := SetView (lat p, lng p) 16, popup := q\<rparr>"
    using card_click_eq by blast
  then show ?thesis
    using assms by (simp add: held_def wf_def fresh_ids_def unowned_def)
qed

lemma ids_after_update:
  "layer_id ` set (map (\<lambda>x. if layer_id x = i then with_latlng pos x else x) xs) = layer_id ` set xs"
proof -
  have "layer_id \<circ> (\<lambda>x. if layer_id x = i then with_latlng pos x else x) = layer_id"
    by (auto simp: fun_eq_iff)
  then have "map layer_id (map (\<lambda>x. if layer_id x = i then with_latlng pos x else x) xs) = map layer_id xs"
    by simp
  then have "set (map layer_id (map (\<lambda>x. if layer_id x = i then with_latlng pos x else x) xs))
      = set (map layer_id xs)"
    by (rule arg_cong)
  then show ?thesis
    unfolding set_map .
qed

lemma option_id_after_update:
  "layer_id ` set_option (map_option (\<lambda>x. if layer_id x = i then with_latlng pos x else x) y)
   = layer_id ` set_option y"
  by (cases y) simp_all

lemma held_setLatLng:
  assumes "held l s" and "userLocationMarker s = Some m"
  shows "held l (setLatLng (layer_id m) pos s)"
proof -
  have w: "wf s" and mem: "l \<in> set (layers s)" and u: "unowned (layer_id l) s"
    using assms by (simp_all add: held_def)
  let ?g = "\<lambda>x. if layer_id x = layer_id m then with_latlng pos x else x"
  let ?t = "setLatLng (layer_id m) pos s"
  have t: "layers ?t = map ?g (layers s)" "next_id ?t = next_id s"
    "propertyMarkers ?t = map ?g (propertyMarkers s)"
    "currentRouteLayer ?t = map_option ?g (currentRouteLayer s)"
    "userLocationMarker ?t = map_option ?g (userLocationMarker s)"
    by (simp_all add: setLatLng_def update_object_def Let_def)
  have ne: "layer_id l \<noteq> layer_id m"
    using u assms(2) by (simp add: unowned_def)
  then have "l = ?g l"
    by simp
  then have "l \<in> ?g ` set (layers s)"
    using mem by (rule image_eqI)
  then have 1: "l \<in> set (layers ?t)"
    unfolding t by simp
  have 2: "unowned (layer_id l) ?t"
    using u unfolding unowned_def t ids_after_update option_id_after_update .
  show ?thesis
    using 1 2 wf_setLatLng [OF w] by (simp add: held_def)
qed

lemma held_new_user_marker:
  assumes "held l s" and "userLocationMarker s = None"
  shows "held l ((addTo (Marker (next_id s) pos ic c) (s\<lparr>next_id := Suc (next_id s)\<rparr>))
             \<lparr>userLocationMarker := Some (Marker (next_id s) pos ic c)\<rparr>)"
proof -
  have w: "wf s" and mem: "l \<in> set (layers s)" and u: "unowned (layer_id l) s"
    using assms by (simp_all add: held_def)
  show ?thesis
    using mem u wf_new_user_marker [OF w, of pos ic c]
    unfolding held_def by (simp add: addTo_def unowned_def)
qed

lemma held_getUserLocation:
  assumes "held l s"
  shows "held l (getUserLocation g callback s)"
proof (cases g)
  case Unsupported
  then show ?thesis using assms by simp
next
  case (Denied e)
  then show ?thesis using assms by simp
next
  case (Position la lo)
  let ?s1 = "case userLocationMarker s of
                  Some m \<Rightarrow> setLatLng (layer_id m) (la, lo) s
                | None \<Rightarrow>
                    (let (i, t) = fresh s;
                         m = Marker i (la, lo) (Some user_icon) None
                     in (addTo m t)\<lparr>userLocationMarker := Some m\<rparr>)"
  have "held l ?s1"
  proof (cases "userLocationMarker s")
    case None
    then show ?thesis
      using held_new_user_marker [OF assms None] by (simp add: fresh_def Let_def)
  next
    case (Some m)
    then show ?thesis
      using held_setLatLng [OF assms Some] by simp
  qed
  then have "held l (setView (la, lo) 15 ?s1)"
    by simp
  then show ?thesis
    unfolding Position getUserLocation.simps Let_def
    by (cases callback) (simp_all add: held_showRoute)
qed

lemma held_step:
  assumes "held l s"
  shows "held l (step h e s)"
proof (cases e)
  case PageLoaded
  then show ?thesis using assms by (simp add: loadProperties_def)
next
  case (PropertiesReturned r)
  then show ?thesis using assms by (cases r) (simp_all add: held_displayProperties)
next
  case (SearchSubmitted f)
  then show ?thesis using assms by (simp add: searchProperties_def)
next
  case (SearchReturned location field r)
  then show ?thesis
    using assms by (cases r) (simp_all add: held_displayProperties searchLocation_def Let_def)
next
  case (LocationSearch field)
  then show ?thesis using assms by (simp add: searchLocation_def Let_def)
next
  case (GeocodeReturned r)
  then show ?thesis using assms by (simp add: held_searchLocation_then)
next
  case (RouteButton dest)
  then show ?thesis
    using assms by (simp add: route_button_def held_showRoute split: option.splits)
next
  case (Geolocated g callback)
  then show ?thesis using assms by (simp add: held_getUserLocation)
next
  case (RouteReturned r)
  then show ?thesis using assms by (simp add: held_showRoute_then)
next
  case (EstimateClicked f)
  then show ?thesis using assms by (simp add: calculatePriceEstimate_def Let_def)
next
  case (EstimateReturned r)
  show ?thesis
  proof (cases r)
    case (Resolved v)
    show ?thesis
      unfolding EstimateReturned Resolved by (rule held_same_core [OF assms]) simp_all
  next
    case (Rejected x)
    show ?thesis
      unfolding EstimateReturned Rejected using assms by simp
  qed
next
  case (CardClicked p)
  then show ?thesis using assms by (simp add: held_card_click)
qed

lemma held_run: "held l s \<Longrightarrow> held l (run h es s)"
  by (induction es arbitrary: s) (simp_all add: held_step)

subsection \<open>Location search: the markers it leaves\<close>

text \<open>
  Claim C8. The marker that \<open>searchLocation\<close> makes for a successful geocode result is
  added to the map and not to \<open>propertyMarkers\<close>. So \<open>clearPropertyMarkers\<close> and
  \<open>displayProperties\<close> leave it on the map, and so does every handler of the page:
  whatever events follow, the marker is still on the map and still outside the
  collection. Each successful geocode adds one such marker.
\<close>

theorem geocode_marker_accumulates:
  assumes "wf s" and "g_success d"
  shows "let s' = searchLocation_then (Resolved d) s;
             m = Marker (next_id s) (g_lat d, g_lng d) None (Some (Html (formatted_address d)))
         in layers s' = layers s @ [m]
          \<and> propertyMarkers s' = propertyMarkers s
          \<and> layer_id m \<notin> layer_id ` set (propertyMarkers s')
          \<and> m \<in> set (layers (clearPropertyMarkers s'))
          \<and> m \<in> set (layers (displayProperties h ps s'))
          \<and> (\<forall>es. m \<in> set (layers (run h es s')) \<and>
                    layer_id m \<notin> layer_id ` set (propertyMarkers (run h es s')))"
proof -
  define s' where "s' = searchLocation_then (Resolved d) s"
  define m where "m = Marker (next_id s) (g_lat d, g_lng d) None (Some (Html (formatted_address d)))"
  have eq: "s' = s\<lparr>layers := layers s @ [m],
       map_view := SetView (g_lat d, g_lng d) 14,
       popup := Some \<lparr>anchor = (g_lat d, g_lng d), shown = Html (formatted_address d),
                      source = Some (next_id s)\<rparr>,
       next_id := Suc (next_id s)\<rparr>"
    unfolding s'_def m_def by (rule searchLocation_then_eq [OF assms(2,1)])
  have w': "wf s'"
    unfolding s'_def by (rule wf_searchLocation_then [OF assms(1)])
  have id: "layer_id m = next_id s"
    by (simp add: m_def)
  have a: "layers s' = layers s @ [m]" and b: "propertyMarkers s' = propertyMarkers s"
    unfolding eq by simp_all
  have c: "layer_id m \<notin> layer_id ` set (propertyMarkers s')"
    using assms(1) unfolding b id by (auto simp: wf_def)
  have u: "unowned (layer_id m) s'"
    using assms(1) c unfolding id unowned_def b
    by (auto simp: eq wf_def)
  have hd: "held m s'"
    using w' u a by (simp add: held_def)
  have d: "m \<in> set (layers (clearPropertyMarkers s'))"
    using c a by (simp add: clearPropertyMarkers_def remove_each_eq)
  have e: "m \<in> set (layers (displayProperties h ps s'))"
    using held_displayProperties [OF hd] by (simp add: held_def)
  have f: "m \<in> set (layers (run h es s')) \<and>
           layer_id m \<notin> layer_id ` set (propertyMarkers (run h es s'))" for es
    using held_run [OF hd, of h es] by (simp add: held_def unowned_def)
  show ?thesis
    using a b c d e f unfolding Let_def s'_def m_def by blast
qed

theorem geocode_marker_accumulates_witness:
  "wf initMap \<and> g_success found \<and>
   Marker 2 (-22.5609, 17.0658) None (Some (Html ''Windhoek, Namibia''))
     \<in> set (layers (run browser
                [PropertiesReturned (Resolved [house, flat]), PropertiesReturned (Resolved [])]
                (searchLocation_then (Resolved found) initMap))) \<and>
   layers (searchLocation_then (Resolved found) initMap) =
     layers initMap @ [Marker 2 (-22.5609, 17.0658) None (Some (Html ''Windhoek, Namibia''))] \<and>
   propertyMarkers (searchLocation_then (Resolved found) initMap) = []"
proof -
  have w: "wf initMap"
    by (simp add: wf_def fresh_ids_def initMap_def)
  have g: "g_success found"
    by (simp add: found_def)
  note t = geocode_marker_accumulates [OF w g, of browser "[]", unfolded Let_def]
  have n: "next_id initMap = 2" "propertyMarkers initMap = []"
    by (simp_all add: initMap_def)
  have 1: "Marker (next_id initMap) (g_lat found, g_lng found) None
             (Some (Html (formatted_address found)))
     \<in> set (layers (run browser
                [PropertiesReturned (Resolved [house, flat]), PropertiesReturned (Resolved [])]
                (searchLocation_then (Resolved found) initMap)))"
    using t by blast
  have 2: "layers (searchLocation_then (Resolved found) initMap) =
     layers initMap @ [Marker (next_id initMap) (g_lat found, g_lng found) None
             (Some (Html (formatted_address found)))]"
    using t by blast
  have 3: "propertyMarkers (searchLocation_then (Resolved found) initMap) = propertyMarkers initMap"
    using t by blast
  show ?thesis
    using w g 1 2 3 unfolding n by (simp add: found_def)
qed

subsection \<open>Routes: requests that overlap\<close>

text \<open>
  Claim C3 at two requests that overlap. \<open>showRoute\<close> is called twice before either
  response arrives; both calls find \<open>currentRouteLayer\<close> empty and remove nothing. Each
  response then draws its line: two route layers are on the map, and
  \<open>currentRouteLayer\<close> refers to the second only, so the next \<open>showRoute\<close> removes that
  one and leaves the first on the map.
\<close>

theorem overlapping_route_requests_leave_two_layers:
  "(let s1 = showRoute (-22.56) 17.08 (-22.57) 17.09 initMap;
        s2 = showRoute (-22.56) 17.08 (-22.54) 17.06 s1;
        s3 = showRoute_then browser (Resolved route_a) s2;
        s4 = showRoute_then browser (Resolved route_b) s3;
        s5 = showRoute (-22.56) 17.08 (-22.57) 17.09 s4
    in filter is_route (layers s4) =
         [Polyline 2 (route_points route_a), Polyline 3 (route_points route_b)]
     \<and> length (filter is_route (layers s4)) = 2
     \<and> currentRouteLayer s4 = Some (Polyline 3 (route_points route_b))
     \<and> fetches (calls s4) = [GetRoute (-22.56) 17.08 (-22.57) 17.09,
                              GetRoute (-22.56) 17.08 (-22.54) 17.06]
     \<and> filter is_route (layers s5) = [Polyline 2 (route_points route_a)])"
  by (simp add: Let_def showRoute_def removeLayer_def log_call_def on_map_def initMap_def
      fresh_def addTo_def openOn_def route_a_def route_b_def route_points_def)

subsection \<open>Routes: requests that do not overlap\<close>

lemma fetches_RemoveLayer [simp]: "fetches (map (\<lambda>m. RemoveLayer (f m)) ms) = []"
  by (induction ms) simp_all

lemma route_requests_log_call:
  "route_requests (log_call c s) =
     route_requests s + (case c of Fetch r \<Rightarrow> if is_route_request r then 1 else 0 | _ \<Rightarrow> 0)"
  by (cases c) (simp_all add: route_requests_def log_call_def)

lemma route_requests_same_calls:
  "calls t = calls s \<Longrightarrow> route_requests t = route_requests s"
  by (simp add: route_requests_def)

lemma route_requests_showRoute:
  "route_requests (showRoute a b c d s) = Suc (route_requests s)"
  by (simp add: showRoute_eq route_requests_def split: option.splits)

lemma route_requests_displayProperties:
  assumes "fresh_ids s"
  shows "route_requests (displayProperties h ps s) = route_requests s"
  unfolding displayProperties_eq [OF assms] by (simp add: route_requests_def)

lemma route_requests_searchLocation:
  "route_requests (searchLocation q field s) = route_requests s"
  by (simp add: searchLocation_def Let_def route_requests_log_call)

lemma route_requests_searchLocation_then:
  assumes "wf s"
  shows "route_requests (searchLocation_then r s) = route_requests s"
proof (cases r)
  case (Resolved d)
  show ?thesis
  proof (cases "g_success d")
    case True
    show ?thesis
      unfolding Resolved searchLocation_then_eq [OF True assms] by (simp add: route_requests_def)
  next
    case False
    then show ?thesis
      using Resolved by (simp add: route_requests_log_call)
  qed
next
  case (Rejected e)
  then show ?thesis by (simp add: route_requests_log_call)
qed

lemma route_requests_card_click: "route_requests (card_click p s) = route_requests s"
proof -
  obtain q where "card_click p s = s\<lparr>map_view := SetView (lat p, lng p) 16, popup := q\<rparr>"
    using card_click_eq by blast
  then show ?thesis
    by (simp add: route_requests_def)
qed

lemma route_inv_same_core:
  assumes "route_inv p s"
    and "layers t = layers s" and "next_id t = next_id s"
    and "propertyMarkers t = propertyMarkers s"
    and "currentRouteLayer t = currentRouteLayer s"
    and "userLocationMarker t = userLocationMarker s"
  shows "route_inv p t"
  using assms by (simp add: route_inv_def wf_def fresh_ids_def)

lemma route_inv_log_call [simp]: "route_inv p (log_call c s) = route_inv p s"
  by (simp add: route_inv_def log_call_def wf_def fresh_ids_def)

lemma route_inv_setView [simp]: "route_inv p (setView c z s) = route_inv p s"
  by (simp add: route_inv_def setView_def wf_def fresh_ids_def)

lemma new_markers_not_routes: "\<forall>l \<in> set (new_markers h n ps). \<not> is_route l"
  by (auto simp: new_markers_def property_marker_def)

lemma route_inv_displayProperties:
  assumes "route_inv p s"
  shows "route_inv p (displayProperties h ps s)"
proof -
  have w: "wf s"
    using assms by (simp add: route_inv_def)
  have r: "\<forall>l \<in> set (layers s). is_route l \<longrightarrow> \<not> p \<and> currentRouteLayer s = Some l"
    using assms by (simp add: route_inv_def)
  have "\<forall>l \<in> set (layers (displayProperties h ps s)).
          is_route l \<longrightarrow> \<not> p \<and> currentRouteLayer (displayProperties h ps s) = Some l"
    unfolding displayProperties_eq [OF wf_fresh [OF w]]
    using r new_markers_not_routes [of h "next_id s" ps] by auto
  then show ?thesis
    using wf_displayProperties [OF w] by (simp add: route_inv_def)
qed

lemma route_inv_searchLocation_then:
  assumes "route_inv p s"
  shows "route_inv p (searchLocation_then r s)"
proof -
  have w: "wf s"
    using assms by (simp add: route_inv_def)
  have i: "\<forall>l \<in> set (layers s). is_route l \<longrightarrow> \<not> p \<and> currentRouteLayer s = Some l"
    using assms by (simp add: route_inv_def)
  have "\<forall>l \<in> set (layers (searchLocation_then r s)).
          is_route l \<longrightarrow> \<not> p \<and> currentRouteLayer (searchLocation_then r s) = Some l"
  proof (cases r)
    case (Resolved d)
    show ?thesis
    proof (cases "g_success d")
      case True
      show ?thesis
        unfolding Resolved searchLocation_then_eq [OF True w] using i by auto
    next
      case False
      then show ?thesis using i Resolved by (simp add: log_call_def)
    qed
  next
    case (Rejected e)
    then show ?thesis using i by (simp add: log_call_def)
  qed
  then show ?thesis
    using wf_searchLocation_then [OF w] by (simp add: route_inv_def)
qed

lemma route_inv_card_click:
  assumes "route_inv p s"
  shows "route_inv p (card_click q s)"
proof -
  obtain x where "card_click q s = s\<lparr>map_view := SetView (lat q, lng q) 16, popup := x\<rparr>"
    using card_click_eq by blast
  then show ?thesis
    using assms by (simp add: route_inv_def wf_def fresh_ids_def)
qed

lemma showRoute_clears_routes:
  assumes "route_inv False s"
  shows "route_inv True (showRoute a b c d s)"
proof -
  have w: "wf s"
    using assms by (simp add: route_inv_def)
  have i: "\<forall>l \<in> set (layers s). is_route l \<longrightarrow> currentRouteLayer s = Some l"
    using assms by (simp add: route_inv_def)
  have "\<forall>l \<in> set (layers (showRoute a b c d s)). \<not> is_route l"
    unfolding showRoute_eq using i by (auto split: option.splits)
  then show ?thesis
    using wf_showRoute [OF w] by (simp add: route_inv_def)
qed

lemma showRoute_then_draws_one:
  assumes "route_inv True s"
  shows "route_inv False (showRoute_then h r s)"
proof -
  have w: "wf s"
    using assms by (simp add: route_inv_def)
  have i: "\<forall>l \<in> set (layers s). \<not> is_route l"
    using assms by (auto simp: route_inv_def)
  have "\<forall>l \<in> set (layers (showRoute_then h r s)).
          is_route l \<longrightarrow> currentRouteLayer (showRoute_then h r s) = Some l"
  proof (cases r)
    case (Resolved rd)
    show ?thesis
    proof (cases "r_success rd")
      case True
      show ?thesis
        unfolding Resolved showRoute_then_eq [OF True wf_fresh [OF w]] using i by auto
    next
      case False
      then show ?thesis using i Resolved by simp
    qed
  next
    case (Rejected e)
    then show ?thesis using i by (simp add: log_call_def)
  qed
  then show ?thesis
    using wf_showRoute_then [OF w] by (simp add: route_inv_def)
qed

lemma is_route_with_latlng [simp]: "is_route (with_latlng pos l) = is_route l"
  by (cases l) simp_all

lemma with_latlng_route: "is_route l \<Longrightarrow> with_latlng pos l = l"
  by (cases l) simp_all

lemma route_inv_setLatLng:
  assumes "route_inv p s"
  shows "route_inv p (setLatLng i pos s)"
proof -
  have w: "wf s"
    using assms by (simp add: route_inv_def)
  have inv: "\<forall>l \<in> set (layers s). is_route l \<longrightarrow> \<not> p \<and> currentRouteLayer s = Some l"
    using assms by (simp add: route_inv_def)
  let ?g = "\<lambda>x. if layer_id x = i then with_latlng pos x else x"
  let ?t = "setLatLng i pos s"
  have t: "layers ?t = map ?g (layers s)"
    "currentRouteLayer ?t = map_option ?g (currentRouteLayer s)"
    by (simp_all add: setLatLng_def update_object_def Let_def)
  have "\<forall>l \<in> set (layers ?t). is_route l \<longrightarrow> \<not> p \<and> currentRouteLayer ?t = Some l"
  proof (intro ballI impI)
    fix l assume l: "l \<in> set (layers ?t)" and r: "is_route l"
    then obtain l0 where l0: "l0 \<in> set (layers s)" and e: "l = ?g l0"
      unfolding t by auto
    have r0: "is_route l0"
      using r e by (simp split: if_splits)
    then have same: "?g l0 = l0"
      by (simp add: with_latlng_route)
    have "\<not> p \<and> currentRouteLayer s = Some l0"
      using inv l0 r0 by blast
    then show "\<not> p \<and> currentRouteLayer ?t = Some l"
      unfolding t e using same by simp
  qed
  then show ?thesis
    using wf_setLatLng [OF w] by (simp add: route_inv_def)
qed

lemma route_inv_new_user_marker:
  assumes "route_inv p s"
  shows "route_inv p ((addTo (Marker (next_id s) pos ic c) (s\<lparr>next_id := Suc (next_id s)\<rparr>))
             \<lparr>userLocationMarker := Some (Marker (next_id s) pos ic c)\<rparr>)"
proof -
  have w: "wf s"
    using assms by (simp add: route_inv_def)
  have inv: "\<forall>l \<in> set (layers s). is_route l \<longrightarrow> \<not> p \<and> currentRouteLayer s = Some l"
    using assms by (simp add: route_inv_def)
  show ?thesis
    using inv wf_new_user_marker [OF w, of pos ic c]
    unfolding route_inv_def by (auto simp: addTo_def)
qed

text \<open>The part of \<open>getUserLocation\<close> before the callback.\<close>

lemma user_marker_part:
  assumes "route_inv p s"
  shows "route_inv p (case userLocationMarker s of
                  Some m \<Rightarrow> setLatLng (layer_id m) pos s
                | None \<Rightarrow>
                    (let (i, t) = fresh s;
                         m = Marker i pos (Some user_icon) None
                     in (addTo m t)\<lparr>userLocationMarker := Some m\<rparr>))"
    and "route_requests (case userLocationMarker s of
                  Some m \<Rightarrow> setLatLng (layer_id m) pos s
                | None \<Rightarrow>
                    (let (i, t) = fresh s;
                         m = Marker i pos (Some user_icon) None
                     in (addTo m t)\<lparr>userLocationMarker := Some m\<rparr>)) = route_requests s"
proof -
  show "route_inv p (case userLocationMarker s of
                  Some m \<Rightarrow> setLatLng (layer_id m) pos s
                | None \<Rightarrow>
                    (let (i, t) = fresh s;
                         m = Marker i pos (Some user_icon) None
                     in (addTo m t)\<lparr>userLocationMarker := Some m\<rparr>))"
    using route_inv_setLatLng [OF assms] route_inv_new_user_marker [OF assms]
    by (simp add: fresh_def Let_def split: option.splits)
  show "route_requests (case userLocationMarker s of
                  Some m \<Rightarrow> setLatLng (layer_id m) pos s
                | None \<Rightarrow>
                    (let (i, t) = fresh s;
                         m = Marker i pos (Some user_icon) None
                     in (addTo m t)\<lparr>userLocationMarker := Some m\<rparr>)) = route_requests s"
    by (simp add: route_requests_def fresh_def Let_def addTo_def setLatLng_def update_object_def
        split: option.splits)
qed

lemma route_requests_setView [simp]: "route_requests (setView c z s) = route_requests s"
  by (simp add: route_requests_def setView_def)

text \<open>A handler other than the route continuation keeps the invariant, or, when it
  sends a route request, clears the map of routes.\<close>

lemma route_inv_step:
  assumes "route_inv p s" and "\<forall>r. e \<noteq> RouteReturned r"
  shows "if route_requests s < route_requests (step h e s)
         then \<not> p \<longrightarrow> route_inv True (step h e s)
         else route_inv p (step h e s)"
proof -
  have w: "wf s"
    using assms(1) by (simp add: route_inv_def)
  have f: "fresh_ids s"
    using w by (rule wf_fresh)
  have sent: "\<not> p \<longrightarrow> route_inv True (showRoute a b c d t)" if "route_inv p t" for a b c d t
    using that showRoute_clears_routes [of t a b c d] by (cases p) simp_all
  show ?thesis
  proof (cases e)
    case PageLoaded
    then show ?thesis
      using assms(1) by (simp add: loadProperties_def route_requests_log_call)
  next
    case (PropertiesReturned r)
    then show ?thesis
      using assms(1)
      by (cases r) (simp_all add: route_inv_displayProperties route_requests_displayProperties [OF f]
          route_requests_log_call)
  next
    case (SearchSubmitted x)
    then show ?thesis
      using assms(1) by (simp add: searchProperties_def route_requests_log_call)
  next
    case (SearchReturned location field r)
    then show ?thesis
      using assms(1)
      by (cases r) (simp_all add: route_inv_displayProperties route_requests_displayProperties [OF f]
          route_requests_log_call searchLocation_def Let_def)
  next
    case (LocationSearch field)
    then show ?thesis
      using assms(1) by (simp add: searchLocation_def Let_def route_requests_log_call)
  next
    case (GeocodeReturned r)
    then show ?thesis
      using assms(1) by (simp add: route_inv_searchLocation_then route_requests_searchLocation_then [OF w])
  next
    case (RouteButton dest)
    show ?thesis
    proof (cases "userLocationMarker s")
      case None
      then show ?thesis
        using assms(1) RouteButton by (simp add: route_button_def)
    next
      case (Some m)
      show ?thesis
      proof (cases "getLatLng m")
        case None
        then show ?thesis
          using assms(1) RouteButton Some by (simp add: route_button_def)
      next
        case (Some u)
        then show ?thesis
          using sent [OF assms(1)] RouteButton \<open>userLocationMarker s = Some m\<close>
          by (simp add: route_button_def route_requests_showRoute)
      qed
    qed
  next
    case (Geolocated g callback)
    show ?thesis
    proof (cases g)
      case Unsupported
      then show ?thesis
        using assms(1) Geolocated by (simp add: route_requests_log_call)
    next
      case (Denied x)
      then show ?thesis
        using assms(1) Geolocated by (simp add: route_requests_log_call)
    next
      case (Position la lo)
      let ?s1 = "case userLocationMarker s of
                  Some m \<Rightarrow> setLatLng (layer_id m) (la, lo) s
                | None \<Rightarrow>
                    (let (i, t) = fresh s;
                         m = Marker i (la, lo) (Some user_icon) None
                     in (addTo m t)\<lparr>userLocationMarker := Some m\<rparr>)"
      let ?s2 = "setView (la, lo) 15 ?s1"
      have i2: "route_inv p ?s2" and r2: "route_requests ?s2 = route_requests s"
        using user_marker_part [OF assms(1), of "(la, lo)"] by simp_all
      show ?thesis
      proof (cases callback)
        case None
        have "step h e s = ?s2"
          unfolding Geolocated Position None by (simp add: Let_def)
        then show ?thesis
          using i2 r2 by simp
      next
        case (Some dest)
        have "step h e s = showRoute la lo (fst dest) (snd dest) ?s2"
          unfolding Geolocated Position Some by (simp add: Let_def)
        then show ?thesis
          using sent [OF i2] r2 by (simp add: route_requests_showRoute)
      qed
    qed
  next
    case (RouteReturned r)
    then show ?thesis
      using assms(2) by simp
  next
    case (EstimateClicked x)
    then show ?thesis
      using assms(1) by (simp add: calculatePriceEstimate_def Let_def route_requests_log_call)
  next
    case (EstimateReturned r)
    show ?thesis
    proof (cases r)
      case (Resolved v)
      have "route_inv p (step h e s)"
        unfolding EstimateReturned Resolved by (rule route_inv_same_core [OF assms(1)]) simp_all
      moreover have "route_requests (step h e s) = route_requests s"
        unfolding EstimateReturned Resolved by (simp add: route_requests_def)
      ultimately show ?thesis
        by simp
    next
      case (Rejected x)
      then show ?thesis
        using assms(1) EstimateReturned by (simp add: route_requests_log_call)
    qed
  next
    case (CardClicked q)
    then show ?thesis
      using assms(1) by (simp add: route_inv_card_click route_requests_card_click)
  qed
qed

lemma non_overlapping_other:
  assumes "\<forall>r. e \<noteq> RouteReturned r"
  shows "non_overlapping h p (e # es) s =
     (if route_requests s < route_requests (step h e s)
      then \<not> p \<and> non_overlapping h True es (step h e s)
      else non_overlapping h p es (step h e s))"
  using assms by (cases e) simp_all

lemma route_inv_run:
  assumes "route_inv p s" and "non_overlapping h p es s"
  shows "\<exists>q. route_inv q (run h es s)"
  using assms
proof (induction es arbitrary: p s)
  case Nil
  then show ?case by auto
next
  case (Cons e es)
  show ?case
  proof (cases "\<exists>r. e = RouteReturned r")
    case True
    then obtain r where e: "e = RouteReturned r" by blast
    have p: "p" and n: "non_overlapping h False es (step h e s)"
      using Cons.prems(2) unfolding e by simp_all
    have "route_inv False (step h e s)"
      using Cons.prems(1) p showRoute_then_draws_one [of s h r] unfolding e by simp
    from Cons.IH [OF this n] show ?thesis
      by simp
  next
    case False
    then have o: "\<forall>r. e \<noteq> RouteReturned r" by blast
    note st = route_inv_step [OF Cons.prems(1) o, of h]
    note no = Cons.prems(2) [unfolded non_overlapping_other [OF o]]
    show ?thesis
    proof (cases "route_requests s < route_requests (step h e s)")
      case True
      then have "route_inv True (step h e s)" and "non_overlapping h True es (step h e s)"
        using st no by simp_all
      from Cons.IH [OF this] show ?thesis
        by simp
    next
      case False
      then have "route_inv p (step h e s)" and "non_overlapping h p es (step h e s)"
        using st no by simp_all
      from Cons.IH [OF this] show ?thesis
        by simp
    qed
  qed
qed

lemma route_inv_at_most_one:
  assumes "route_inv q s"
  shows "length (filter is_route (layers s)) \<le> 1"
proof -
  have d: "distinct (layers s)"
    using assms by (auto simp: route_inv_def wf_def dest: distinct_map [THEN iffD1])
  then have df: "distinct (filter is_route (layers s))"
    by simp
  show ?thesis
  proof (cases "filter is_route (layers s)")
    case Nil
    then show ?thesis by simp
  next
    case (Cons l ls)
    have all: "\<forall>x \<in> set (filter is_route (layers s)). currentRouteLayer s = Some x"
      using assms by (auto simp: route_inv_def)
    then have "currentRouteLayer s = Some l"
      unfolding Cons by simp
    then have "\<forall>x \<in> set ls. x = l"
      using all unfolding Cons by auto
    moreover have "l \<notin> set ls"
      using df unfolding Cons by simp
    ultimately have "ls = []"
      by (cases ls) auto
    then show ?thesis
      unfolding Cons by simp
  qed
qed

text \<open>
  While route requests do not overlap, the page shows at most one route layer, from
  \<open>initMap\<close> on and after every event.
\<close>

lemma one_route_when_requests_do_not_overlap:
  assumes "route_inv p s" and "non_overlapping h p es s"
  shows "length (filter is_route (layers (run h es s))) \<le> 1"
proof -
  obtain q where "route_inv q (run h es s)"
    using route_inv_run [OF assms] by blast
  then show ?thesis
    by (rule route_inv_at_most_one)
qed

lemma route_inv_initMap: "route_inv False initMap"
  by (simp add: route_inv_def wf_def fresh_ids_def initMap_def)

text \<open>A history of that kind: the user is located, asks for a route, gets it, asks
  for another and gets that one. The second line has replaced the first.\<close>

lemma one_route_when_requests_do_not_overlap_example:
  "route_inv False initMap \<and>
   non_overlapping browser False
     [Geolocated (Position (-22.56) 17.08) None, RouteButton (-22.57, 17.09),
      RouteReturned (Resolved route_a), RouteButton (-22.54, 17.06),
      RouteReturned (Resolved route_b)] initMap \<and>
   filter is_route (layers (run browser
     [Geolocated (Position (-22.56) 17.08) None, RouteButton (-22.57, 17.09),
      RouteReturned (Resolved route_a), RouteButton (-22.54, 17.06),
      RouteReturned (Resolved route_b)] initMap)) = [Polyline 4 (route_points route_b)]"
proof -
  define s1 where "s1 = step browser (Geolocated (Position (-22.56) 17.08) None) initMap"
  define s2 where "s2 = step browser (RouteButton (-22.57, 17.09)) s1"
  define s3 where "s3 = step browser (RouteReturned (Resolved route_a)) s2"
  define s4 where "s4 = step browser (RouteButton (-22.54, 17.06)) s3"
  define s5 where "s5 = step browser (RouteReturned (Resolved route_b)) s4"
  have e1: "s1 = initMap\<lparr>layers := layers initMap @ [Marker 2 (-22.56, 17.08) (Some user_icon) None],
      map_view := SetView (-22.56, 17.08) 15, next_id := 3,
      userLocationMarker := Some (Marker 2 (-22.56, 17.08) (Some user_icon) None)\<rparr>"
    unfolding s1_def
    by (simp add: initMap_def fresh_def addTo_def on_map_def setView_def Let_def)
  have e2: "s2 = s1\<lparr>calls := [Fetch (GetRoute (-22.56) 17.08 (-22.57) 17.09)]\<rparr>"
    unfolding s2_def e1
    by (simp add: route_button_def showRoute_def log_call_def initMap_def)
  have e3: "s3 = s2\<lparr>layers := layers s2 @ [Polyline 3 (route_points route_a)],
       map_view := FitBounds (route_points route_a) (50, 50),
       popup := Some \<lparr>anchor = route_points route_a ! (length (route_points route_a) div 2),
                      shown = Html (route_message browser route_a), source = None\<rparr>,
       next_id := 4,
       currentRouteLayer := Some (Polyline 3 (route_points route_a))\<rparr>"
  proof -
    have "fresh_ids s2"
      unfolding e2 e1 by (simp add: fresh_ids_def initMap_def)
    moreover have "r_success route_a"
      by (simp add: route_a_def)
    ultimately have "showRoute_then browser (Resolved route_a) s2 =
       s2\<lparr>layers := layers s2 @ [Polyline (next_id s2) (route_points route_a)],
       map_view := FitBounds (route_points route_a) (50, 50),
       popup := Some \<lparr>anchor = route_points route_a ! (length (route_points route_a) div 2),
                      shown = Html (route_message browser route_a), source = None\<rparr>,
       next_id := Suc (next_id s2),
       currentRouteLayer := Some (Polyline (next_id s2) (route_points route_a))\<rparr>"
      by (rule showRoute_then_eq [rotated])
    moreover have "next_id s2 = 3"
      unfolding e2 e1 by simp
    ultimately show ?thesis
      unfolding s3_def by simp
  qed
  have l3: "layers s3 = layers initMap @ [Marker 2 (-22.56, 17.08) (Some user_icon) None,
              Polyline 3 (route_points route_a)]"
    and c3: "currentRouteLayer s3 = Some (Polyline 3 (route_points route_a))"
    and u3: "userLocationMarker s3 = Some (Marker 2 (-22.56, 17.08) (Some user_icon) None)"
    and n3: "next_id s3 = 4"
    and k3: "calls s3 = [Fetch (GetRoute (-22.56) 17.08 (-22.57) 17.09)]"
    unfolding e3 e2 e1 by simp_all
  have e4: "s4 = s3\<lparr>layers := layers initMap @ [Marker 2 (-22.56, 17.08) (Some user_icon) None],
       popup := close_bound {3} (popup s3),
       calls := [Fetch (GetRoute (-22.56) 17.08 (-22.57) 17.09), RemoveLayer 3,
                 Fetch (GetRoute (-22.56) 17.08 (-22.54) 17.06)]\<rparr>"
    unfolding s4_def
    by (simp add: route_button_def u3 showRoute_eq c3 l3 k3 initMap_def)
  have e5: "s5 = s4\<lparr>layers := layers s4 @ [Polyline 4 (route_points route_b)],
       map_view := FitBounds (route_points route_b) (50, 50),
       popup := Some \<lparr>anchor = route_points route_b ! (length (route_points route_b) div 2),
                      shown = Html (route_message browser route_b), source = None\<rparr>,
       next_id := 5,
       currentRouteLayer := Some (Polyline 4 (route_points route_b))\<rparr>"
  proof -
    have "fresh_ids s4"
      unfolding e4 by (simp add: fresh_ids_def initMap_def n3)
    moreover have "r_success route_b"
      by (simp add: route_b_def)
    ultimately have "showRoute_then browser (Resolved route_b) s4 =
       s4\<lparr>layers := layers s4 @ [Polyline (next_id s4) (route_points route_b)],
       map_view := FitBounds (route_points route_b) (50, 50),
       popup := Some \<lparr>anchor = route_points route_b ! (length (route_points route_b) div 2),
                      shown = Html (route_message browser route_b), source = None\<rparr>,
       next_id := Suc (next_id s4),
       currentRouteLayer := Some (Polyline (next_id s4) (route_points route_b))\<rparr>"
      by (rule showRoute_then_eq [rotated])
    moreover have "next_id s4 = 4"
      unfolding e4 by (simp add: n3)
    ultimately show ?thesis
      unfolding s5_def by simp
  qed
  have r: "route_requests initMap = 0" "route_requests s1 = 0" "route_requests s2 = 1"
    "route_requests s3 = 1" "route_requests s4 = 2"
    unfolding e4 e3 e2 e1 by (simp_all add: route_requests_def initMap_def k3)
  have i: "route_inv False initMap"
    by (rule route_inv_initMap)
  have n: "non_overlapping browser False
     [Geolocated (Position (-22.56) 17.08) None, RouteButton (-22.57, 17.09),
      RouteReturned (Resolved route_a), RouteButton (-22.54, 17.06),
      RouteReturned (Resolved route_b)] initMap"
    unfolding non_overlapping.simps s1_def [symmetric] s2_def [symmetric] s3_def [symmetric]
      s4_def [symmetric]
    by (simp add: r)
  have "layers s5 = layers initMap @ [Marker 2 (-22.56, 17.08) (Some user_icon) None,
              Polyline 4 (route_points route_b)]"
    unfolding e5 e4 by simp
  then have f: "filter is_route (layers s5) = [Polyline 4 (route_points route_b)]"
    by (simp add: initMap_def)
  have "run browser
     [Geolocated (Position (-22.56) 17.08) None, RouteButton (-22.57, 17.09),
      RouteReturned (Resolved route_a), RouteButton (-22.54, 17.06),
      RouteReturned (Resolved route_b)] initMap = s5"
    unfolding run.simps s1_def [symmetric] s2_def [symmetric] s3_def [symmetric]
      s4_def [symmetric] s5_def [symmetric] by (rule refl)
  then show ?thesis
    using i n f one_route_when_requests_do_not_overlap [OF i n] by simp
qed

end
